theory Spec2Isabelle
  imports Complex_Main "HOL-Library.Word"
begin

section \<open>The scripting layer of Open Surge (src/scripting/scripting.c)\<close>

text \<open>
  The file binds the SurgeScript virtual machine to the engine. Two parts are embedded:
  the transform and component utilities, which work on the object tree of the VM, and
  the lifecycle functions (init, reload, compilation of the scripts), which work on the
  file's static variables and call into the VM library, the asset filesystem and the
  log file.

  A finite \<open>float\<close> of the C code is the \<open>real\<close> it denotes. The float additions and
  subtractions the file performs itself are parameters, so that a result is rounded as
  the machine rounds it; the arithmetic inside the library stays in the library.
\<close>

subsection \<open>Objects, transforms and the object manager\<close>

type_synonym surgescript_objecthandle = nat

type_synonym v2d = "real \<times> real"

text \<open>Of a transform the file reads and writes \<open>position.x\<close>, \<open>position.y\<close> and \<open>rotation.z\<close>.\<close>

record surgescript_transform =
  transform_position :: v2d
  transform_rotation_z :: real

text \<open>
  An object as the file sees it through the accessors of the library:
  \<open>surgescript_object_name\<close>, \<open>surgescript_object_parent\<close>, the children searched by
  \<open>surgescript_object_child\<close>, the transform read by \<open>surgescript_object_peek_transform\<close>
  and the flag read by \<open>surgescript_object_transform_changed\<close>. The handle of an object
  is the key under which the manager stores it.
\<close>

record surgescript_object =
  object_name :: string
  object_parent :: surgescript_objecthandle
  object_children :: "surgescript_objecthandle list"
  object_transform :: surgescript_transform
  object_transform_changed :: bool

record surgescript_objectmanager =
  objects :: "surgescript_objecthandle \<rightharpoonup> surgescript_object"
  objectmanager_root :: surgescript_objecthandle
  next_handle :: surgescript_objecthandle

datatype error = NullPointerException | FatalError string

definition objectmanager_null :: surgescript_objecthandle where
  "objectmanager_null = 0"

text \<open>\<open>surgescript_objectmanager_get\<close>: a handle that names no object is a fatal error.\<close>

definition objectmanager_get ::
  "surgescript_objectmanager \<Rightarrow> surgescript_objecthandle \<Rightarrow> error + surgescript_object" where
  "objectmanager_get m h =
     (case objects m h of None \<Rightarrow> Inl NullPointerException | Some obj \<Rightarrow> Inr obj)"

definition objectmanager_put ::
  "surgescript_objectmanager \<Rightarrow> surgescript_objecthandle \<Rightarrow> surgescript_object \<Rightarrow>
   surgescript_objectmanager" where
  "objectmanager_put m h obj = m\<lparr>objects := (objects m)(h \<mapsto> obj)\<rparr>"

subsection \<open>World position and world angle\<close>

text \<open>
  The functions take a pointer to an object; the embedding takes the manager and the
  handle of that object. \<open>surgescript_transform_apply2d\<close> and
  \<open>surgescript_transform_apply2dinverse\<close> belong to the library and are parameters.
  A function returns \<open>None\<close> when the C code does not return (a parent chain that never
  reaches its end), \<open>Some (Inl e)\<close> when the library stops with a fatal error and
  \<open>Some (Inr v)\<close> when it returns \<open>v\<close>.
\<close>

text \<open>The loop \<open>while(handle != root)\<close> of \<open>scripting_util_world_position\<close>.\<close>

partial_function (option) world_position_loop ::
  "(surgescript_transform \<Rightarrow> v2d \<Rightarrow> v2d) \<Rightarrow> surgescript_objectmanager \<Rightarrow>
   surgescript_objecthandle \<Rightarrow> surgescript_objecthandle \<Rightarrow> surgescript_object \<Rightarrow> v2d \<Rightarrow>
   (error + v2d) option" where
  "world_position_loop apply2d m root_handle handle obj world_position =
     (if handle \<noteq> root_handle then
        (let handle' = object_parent obj in
         case objectmanager_get m handle' of
           Inl e \<Rightarrow> Some (Inl e)
         | Inr obj' \<Rightarrow>
             if object_transform_changed obj'
             then world_position_loop apply2d m root_handle handle' obj'
                    (apply2d (object_transform obj') world_position)
             else world_position_loop apply2d m root_handle handle' obj' world_position)
      else Some (Inr world_position))"

definition scripting_util_world_position ::
  "(surgescript_transform \<Rightarrow> v2d \<Rightarrow> v2d) \<Rightarrow> surgescript_objectmanager \<Rightarrow>
   surgescript_objecthandle \<Rightarrow> (error + v2d) option" where
  "scripting_util_world_position apply2d m h =
     (case objectmanager_get m h of
        Inl e \<Rightarrow> Some (Inl e)
      | Inr obj \<Rightarrow>
          world_position_loop apply2d m (objectmanager_root m) h obj
            (transform_position (object_transform obj)))"

text \<open>
  The float arithmetic of the file: \<open>parent_angle + transform.rotation.z\<close> adds two
  floats, \<open>*angle -= transform.rotation.z\<close> subtracts two floats, and the assignment
  \<open>transform->rotation.z = fmod(angle, 360.0f)\<close> stores a \<open>double\<close> in a \<open>float\<close>.
\<close>

record float_arithmetic =
  float_add :: "real \<Rightarrow> real \<Rightarrow> real"
  float_sub :: "real \<Rightarrow> real \<Rightarrow> real"
  float_of_double :: "real \<Rightarrow> real"

text \<open>
  \<open>scripting_util_world_angle\<close>. The test \<open>parent != object\<close> compares two pointers
  into the handle table, which is the comparison of the two handles.
\<close>

partial_function (option) scripting_util_world_angle ::
  "float_arithmetic \<Rightarrow> surgescript_objectmanager \<Rightarrow> surgescript_objecthandle \<Rightarrow>
   (error + real) option" where
  "scripting_util_world_angle F m h =
     (case objectmanager_get m h of
        Inl e \<Rightarrow> Some (Inl e)
      | Inr obj \<Rightarrow>
          (case objectmanager_get m (object_parent obj) of
             Inl e \<Rightarrow> Some (Inl e)
           | Inr parent \<Rightarrow>
               Option.bind
                 (if object_parent obj \<noteq> h
                  then scripting_util_world_angle F m (object_parent obj)
                  else Some (Inr 0))
                 (\<lambda>r. case r of
                         Inl e \<Rightarrow> Some (Inl e)
                       | Inr parent_angle \<Rightarrow>
                           Some (Inr (float_add F parent_angle
                                        (transform_rotation_z (object_transform obj)))))))"

text \<open>
  \<open>world2local\<close>. The out-parameters \<open>position\<close> and \<open>angle\<close> may be \<open>NULL\<close>; the
  embedding passes and returns an optional value for each.
\<close>

partial_function (option) world2local ::
  "(surgescript_transform \<Rightarrow> v2d \<Rightarrow> v2d) \<Rightarrow> float_arithmetic \<Rightarrow> surgescript_objectmanager \<Rightarrow>
   surgescript_objecthandle \<Rightarrow> surgescript_objecthandle \<Rightarrow> v2d option \<Rightarrow> real option \<Rightarrow>
   (error + v2d option \<times> real option) option" where
  "world2local apply2dinverse F m handle root_handle position angle =
     (case objectmanager_get m handle of
        Inl e \<Rightarrow> Some (Inl e)
      | Inr obj \<Rightarrow>
          Option.bind
            (if handle \<noteq> root_handle
             then world2local apply2dinverse F m (object_parent obj) root_handle position angle
             else Some (Inr (position, angle)))
            (\<lambda>r. case r of
                    Inl e \<Rightarrow> Some (Inl e)
                  | Inr (position', angle') \<Rightarrow>
                      Some (Inr (map_option (apply2dinverse (object_transform obj)) position',
                                 map_option
                                   (\<lambda>a. float_sub F a (transform_rotation_z (object_transform obj)))
                                   angle'))))"

text \<open>
  \<open>surgescript_object_transform\<close> hands out the transform of the object for writing;
  from then on the object counts as one whose transform has changed.
\<close>

definition object_set_position :: "v2d \<Rightarrow> surgescript_object \<Rightarrow> surgescript_object" where
  "object_set_position p obj =
     obj\<lparr>object_transform := (object_transform obj)\<lparr>transform_position := p\<rparr>,
         object_transform_changed := True\<rparr>"


definition scripting_util_set_world_position ::
  "(surgescript_transform \<Rightarrow> v2d \<Rightarrow> v2d) \<Rightarrow> float_arithmetic \<Rightarrow> surgescript_objectmanager \<Rightarrow>
   surgescript_objecthandle \<Rightarrow> v2d \<Rightarrow> (error + surgescript_objectmanager) option" where
  "scripting_util_set_world_position apply2dinverse F m h position =
     (case objectmanager_get m h of
        Inl e \<Rightarrow> Some (Inl e)
      | Inr obj \<Rightarrow>
          Option.bind
            (if h \<noteq> objectmanager_root m
             then world2local apply2dinverse F m (object_parent obj) (objectmanager_root m)
                    (Some position) None
             else Some (Inr (Some position, None)))
            (\<lambda>r. case r of
                    Inl e \<Rightarrow> Some (Inl e)
                  | Inr (position', angle') \<Rightarrow>
                      Some (Inr (objectmanager_put m h
                        (object_set_position (case position' of None \<Rightarrow> position | Some p \<Rightarrow> p)
                           obj)))))"




subsection \<open>The ancestor chain of an object\<close>

text \<open>
  \<open>ancestors m d h\<close> is the chain of the objects above \<open>h\<close>, from the parent of \<open>h\<close>
  up to and including the root, when \<open>h\<close> lies at depth \<open>d\<close> below the root, and \<open>None\<close>
  when \<open>h\<close> is not at depth \<open>d\<close>.
\<close>

fun ancestors ::
  "surgescript_objectmanager \<Rightarrow> nat \<Rightarrow> surgescript_objecthandle \<Rightarrow> surgescript_object list option"
  where
  "ancestors m 0 h = (if h = objectmanager_root m then Some [] else None)"
| "ancestors m (Suc d) h =
     (if h = objectmanager_root m then None
      else case objects m h of
             None \<Rightarrow> None
           | Some obj \<Rightarrow>
               (case objects m (object_parent obj) of
                  None \<Rightarrow> None
                | Some p \<Rightarrow> map_option ((#) p) (ancestors m d (object_parent obj))))"

text \<open>The rotations summed along a chain.\<close>

definition sum_rotation :: "surgescript_object list \<Rightarrow> real" where
  "sum_rotation as = sum_list (map (\<lambda>a. transform_rotation_z (object_transform a)) as)"

text \<open>
  The rotations of a chain added in float arithmetic from its far end, the root, down
  to its head, starting from zero.
\<close>

fun angle_sum :: "float_arithmetic \<Rightarrow> surgescript_object list \<Rightarrow> real" where
  "angle_sum F [] = 0"
| "angle_sum F (a # as) =
     float_add F (angle_sum F as) (transform_rotation_z (object_transform a))"

text \<open>
  An angle from which the rotations of a chain are subtracted in float arithmetic, the
  root's first and the head's last.
\<close>

fun local_angle :: "float_arithmetic \<Rightarrow> real \<Rightarrow> surgescript_object list \<Rightarrow> real" where
  "local_angle F angle [] = angle"
| "local_angle F angle (a # as) =
     float_sub F (local_angle F angle as) (transform_rotation_z (object_transform a))"


fun exact_additions :: "float_arithmetic \<Rightarrow> surgescript_object list \<Rightarrow> bool" where
  "exact_additions F [] = True"
| "exact_additions F (a # as) =
     (exact_additions F as \<and>
      float_add F (angle_sum F as) (transform_rotation_z (object_transform a)) =
        angle_sum F as + transform_rotation_z (object_transform a))"


text \<open>A position carried root-ward through the transforms of a chain, parent first.\<close>

definition compose_chain ::
  "(surgescript_transform \<Rightarrow> v2d \<Rightarrow> v2d) \<Rightarrow> surgescript_object list \<Rightarrow> v2d \<Rightarrow> v2d" where
  "compose_chain apply2d as p = foldl (\<lambda>q a. apply2d (object_transform a) q) p as"

text \<open>
  The library keeps the identity transform in an object until the transform is first
  written: an object whose transform has not changed does not move a point.
\<close>

definition unchanged_is_identity ::
  "(surgescript_transform \<Rightarrow> v2d \<Rightarrow> v2d) \<Rightarrow> surgescript_object list \<Rightarrow> bool" where
  "unchanged_is_identity apply2d as =
     list_all (\<lambda>a. object_transform_changed a \<or> (\<forall>p. apply2d (object_transform a) p = p)) as"

text \<open>
  A position carried back from world to local coordinates through the inverse transforms
  of a chain: the root's inverse first, the immediate parent's last.
\<close>

definition invert_chain ::
  "(surgescript_transform \<Rightarrow> v2d \<Rightarrow> v2d) \<Rightarrow> surgescript_object list \<Rightarrow> v2d \<Rightarrow> v2d" where
  "invert_chain apply2dinverse as p =
     foldl (\<lambda>q a. apply2dinverse (object_transform a) q) p (rev as)"

text \<open>\<open>apply2dinverse\<close> undoes \<open>apply2d\<close> on the transforms of a chain.\<close>

definition inverse_on ::
  "(surgescript_transform \<Rightarrow> v2d \<Rightarrow> v2d) \<Rightarrow> (surgescript_transform \<Rightarrow> v2d \<Rightarrow> v2d) \<Rightarrow>
   surgescript_object list \<Rightarrow> bool" where
  "inverse_on apply2d apply2dinverse as =
     list_all (\<lambda>a. \<forall>q. apply2d (object_transform a) (apply2dinverse (object_transform a) q) = q) as"

text \<open>The root is its own parent: this is where the recursion of the world angle stops.\<close>

definition root_is_own_parent :: "surgescript_objectmanager \<Rightarrow> bool" where
  "root_is_own_parent m =
     (case objects m (objectmanager_root m) of
        None \<Rightarrow> False
      | Some r \<Rightarrow> object_parent r = objectmanager_root m)"

subsection \<open>A rigid motion and a small tree, for concrete evaluation\<close>

text \<open>
  Rotation by \<open>rotation.z\<close> degrees followed by translation by \<open>position\<close>, and the
  motion that undoes it.
\<close>

definition rotate_translate :: "surgescript_transform \<Rightarrow> v2d \<Rightarrow> v2d" where
  "rotate_translate t p =
     (let r = transform_rotation_z t * pi / 180 in
      (fst p * cos r - snd p * sin r + fst (transform_position t),
       fst p * sin r + snd p * cos r + snd (transform_position t)))"

definition rotate_translate_inverse :: "surgescript_transform \<Rightarrow> v2d \<Rightarrow> v2d" where
  "rotate_translate_inverse t p =
     (let r = transform_rotation_z t * pi / 180;
          dx = fst p - fst (transform_position t);
          dy = snd p - snd (transform_position t)
      in (dx * cos r + dy * sin r, dy * cos r - dx * sin r))"

text \<open>
  Rounding to the nearest number with 24 significant bits, ties to the even one, as IEEE
  single precision rounds a result in its normal range, and the float arithmetic that
  rounds every result so.
\<close>

definition float_exponent :: "real \<Rightarrow> int" where
  "float_exponent x = \<lfloor>log 2 \<bar>x\<bar>\<rfloor>"

definition round_to_even :: "real \<Rightarrow> int" where
  "round_to_even r =
     (if r - of_int \<lfloor>r\<rfloor> < 1 / 2 then \<lfloor>r\<rfloor>
      else if 1 / 2 < r - of_int \<lfloor>r\<rfloor> then \<lfloor>r\<rfloor> + 1
      else if even \<lfloor>r\<rfloor> then \<lfloor>r\<rfloor> else \<lfloor>r\<rfloor> + 1)"

definition float_round :: "real \<Rightarrow> real" where
  "float_round x =
     (if x = 0 then 0
      else 2 powr of_int (float_exponent x - 23) *
           of_int (round_to_even (x / 2 powr of_int (float_exponent x - 23))))"

definition ieee_single :: float_arithmetic where
  "ieee_single =
     \<lparr>float_add = (\<lambda>a b. float_round (a + b)),
      float_sub = (\<lambda>a b. float_round (a - b)),
      float_of_double = float_round\<rparr>"

definition make_object ::
  "string \<Rightarrow> surgescript_objecthandle \<Rightarrow> surgescript_objecthandle list \<Rightarrow> v2d \<Rightarrow> real \<Rightarrow> bool \<Rightarrow>
   surgescript_object" where
  "make_object n p cs pos rot changed =
     \<lparr>object_name = n, object_parent = p, object_children = cs,
      object_transform = \<lparr>transform_position = pos, transform_rotation_z = rot\<rparr>,
      object_transform_changed = changed\<rparr>"

text \<open>
  A root (handle 1) with a level below it (2), a layer that was never moved (3) and a
  leaf (4).
\<close>

definition example_root :: surgescript_object where
  "example_root = make_object ''System'' 1 [2] (100, 0) 180 True"

definition example_level :: surgescript_object where
  "example_level = make_object ''Level'' 1 [3] (0, 10) 90 True"

definition example_layer :: surgescript_object where
  "example_layer = make_object ''Layer'' 2 [4] (0, 0) 0 False"

definition example_leaf :: surgescript_object where
  "example_leaf = make_object ''Leaf'' 3 [] (1, 0) 45 True"

definition example_manager :: surgescript_objectmanager where
  "example_manager =
     \<lparr>objects = [1 \<mapsto> example_root, 2 \<mapsto> example_level, 3 \<mapsto> example_layer, 4 \<mapsto> example_leaf],
      objectmanager_root = 1, next_handle = 5\<rparr>"




subsection \<open>Reading a result\<close>

text \<open>The local position and rotation stored for \<open>h\<close> in the manager a mutation returns.\<close>

definition stored_transform ::
  "(error + surgescript_objectmanager) option \<Rightarrow> surgescript_objecthandle \<Rightarrow>
   surgescript_transform option" where
  "stored_transform r h =
     (case r of
        Some (Inr m') \<Rightarrow> map_option object_transform (objects m' h)
      | _ \<Rightarrow> None)"

text \<open>\<open>set_world_position(O, P); world_position(O)\<close>.\<close>

definition set_then_get_world_position ::
  "(surgescript_transform \<Rightarrow> v2d \<Rightarrow> v2d) \<Rightarrow> (surgescript_transform \<Rightarrow> v2d \<Rightarrow> v2d) \<Rightarrow>
   float_arithmetic \<Rightarrow> surgescript_objectmanager \<Rightarrow> surgescript_objecthandle \<Rightarrow> v2d \<Rightarrow>
   (error + v2d) option" where
  "set_then_get_world_position apply2d apply2dinverse F m h p =
     Option.bind (scripting_util_set_world_position apply2dinverse F m h p)
       (\<lambda>r. case r of
               Inl e \<Rightarrow> Some (Inl e)
             | Inr m' \<Rightarrow> scripting_util_world_position apply2d m' h)"


text \<open>
  The world angle as the specification words it: the rotations summed along the chain
  from the object to the root, the root counted as zero.
\<close>

definition world_angle_root_counted_zero ::
  "surgescript_objectmanager \<Rightarrow> surgescript_objecthandle \<Rightarrow> surgescript_object \<Rightarrow>
   surgescript_object list \<Rightarrow> real" where
  "world_angle_root_counted_zero m h obj as =
     (if h = objectmanager_root m then 0
      else transform_rotation_z (object_transform obj) + sum_rotation (butlast as))"

subsection \<open>Components\<close>

text \<open>Whether the handle \<open>c\<close> names an object called \<open>n\<close>.\<close>

definition names_child ::
  "surgescript_objectmanager \<Rightarrow> string \<Rightarrow> surgescript_objecthandle \<Rightarrow> bool" where
  "names_child m n c =
     (case objects m c of None \<Rightarrow> False | Some child \<Rightarrow> object_name child = n)"

text \<open>
  Modelled from the spec: \<open>surgescript_object_child\<close>, a function of the library that the
  file only calls. It "looks among the [...] existing children for one matching name";
  the answer is the null handle when there is none.
\<close>

definition object_child ::
  "surgescript_objectmanager \<Rightarrow> surgescript_object \<Rightarrow> string \<Rightarrow> surgescript_objecthandle" where
  "object_child m parent n =
     (case find (names_child m n) (object_children parent) of
        None \<Rightarrow> objectmanager_null
      | Some c \<Rightarrow> c)"

definition identity_transform :: surgescript_transform where
  "identity_transform = \<lparr>transform_position = (0, 0), transform_rotation_z = 0\<rparr>"

text \<open>
  Modelled from the spec: \<open>surgescript_objectmanager_spawn\<close>, a function of the library
  that the file only calls. It "instantiates (spawns) a new child of that type under the
  parent and returns its handle": the child takes the next handle of the manager, its
  transform has not changed yet, and it is appended to the children of the parent.
\<close>

definition objectmanager_spawn ::
  "surgescript_objectmanager \<Rightarrow> surgescript_objecthandle \<Rightarrow> string \<Rightarrow>
   error + surgescript_objecthandle \<times> surgescript_objectmanager" where
  "objectmanager_spawn m parent_handle n =
     (case objectmanager_get m parent_handle of
        Inl e \<Rightarrow> Inl e
      | Inr parent \<Rightarrow>
          (let h = next_handle m;
               child = \<lparr>object_name = n, object_parent = parent_handle, object_children = [],
                        object_transform = identity_transform, object_transform_changed = False\<rparr>;
               parent' = parent\<lparr>object_children := object_children parent @ [h]\<rparr>
           in Inr (h, m\<lparr>objects := (objects m)(parent_handle \<mapsto> parent', h \<mapsto> child),
                         next_handle := Suc h\<rparr>)))"

definition scripting_util_require_component ::
  "surgescript_objectmanager \<Rightarrow> surgescript_objecthandle \<Rightarrow> string \<Rightarrow>
   error + surgescript_objecthandle \<times> surgescript_objectmanager" where
  "scripting_util_require_component m h component_name =
     (case objectmanager_get m h of
        Inl e \<Rightarrow> Inl e
      | Inr obj \<Rightarrow>
          (let parent_handle = object_parent obj in
           case objectmanager_get m parent_handle of
             Inl e \<Rightarrow> Inl e
           | Inr parent \<Rightarrow>
               (let component = object_child m parent component_name in
                if component = objectmanager_null
                then objectmanager_spawn m parent_handle component_name
                else Inr (component, m))))"

text \<open>The children of the object \<open>h\<close>.\<close>

definition children_of ::
  "surgescript_objectmanager \<Rightarrow> surgescript_objecthandle \<Rightarrow> surgescript_objecthandle list" where
  "children_of m h = (case objects m h of None \<Rightarrow> [] | Some obj \<Rightarrow> object_children obj)"

text \<open>
  The null handle names no object, and the next handle of the manager is free and is not
  the null handle.
\<close>

definition spawn_ready :: "surgescript_objectmanager \<Rightarrow> bool" where
  "spawn_ready m \<longleftrightarrow>
     objects m objectmanager_null = None \<and> objects m (next_handle m) = None
     \<and> next_handle m \<noteq> objectmanager_null"

subsection \<open>The static variables of the file and the functions it calls\<close>

type_synonym surgescript_parser_flags = "32 word"

text \<open>The calls the file makes into the library, the asset filesystem and the log file.\<close>

datatype call =
    SetErrorFunctions
  | VmCreate
  | VmReset
  | Register string
  | ParserSetFlags surgescript_parser_flags
  | VmCompile string
  | VmLaunchEx int "string list option"
  | LogfileMessage string
  | PluginObject string

text \<open>
  What the file calls and does not define: the functions of the SurgeScript library on
  an opaque VM, the \<open>scripting_register_\<close>\<open>name\<close> functions of the engine, the asset
  filesystem with the script files it enumerates, and the two parser flags.
\<close>

record 'vm collaborators =
  util_versioncode :: "string option \<Rightarrow> int"
  util_version :: string
  vm_create :: 'vm
  vm_reset :: "'vm \<Rightarrow> bool \<times> 'vm"
  scripting_register :: "string \<Rightarrow> 'vm \<Rightarrow> 'vm"
  parser_set_flags :: "surgescript_parser_flags \<Rightarrow> 'vm \<Rightarrow> 'vm"
  vm_compile :: "string \<Rightarrow> 'vm \<Rightarrow> bool \<times> 'vm"
  vm_launch_ex :: "int \<Rightarrow> string list option \<Rightarrow> 'vm \<Rightarrow> 'vm"
  programpool_exists :: "'vm \<Rightarrow> string \<Rightarrow> string \<Rightarrow> bool"
  vm_objectmanager :: "'vm \<Rightarrow> surgescript_objectmanager"
  plugin_object :: "'vm \<Rightarrow> string \<Rightarrow> surgescript_objecthandle"
  assetfs_script_files :: "string list"
  assetfs_is_primary_file :: "string \<Rightarrow> bool"
  assetfs_fullpath :: "string \<Rightarrow> string"
  SSPARSER_DEFAULTS :: surgescript_parser_flags
  SSPARSER_SKIP_DUPLICATES :: surgescript_parser_flags

text \<open>
  The statics \<open>vm\<close>, \<open>vm_argv\<close>, \<open>vm_argc\<close> and \<open>test_mode\<close>, the static \<open>cached_ref\<close> of
  \<open>scripting_util_surgeengine_object\<close>, and the calls made so far.
\<close>

record 'vm scripting =
  vm :: "'vm option"
  vm_argv :: "string list option"
  vm_argc :: int
  test_mode :: bool
  cached_ref :: surgescript_objecthandle
  calls :: "call list"

definition initial_scripting :: "'vm scripting" where
  "initial_scripting =
     \<lparr>vm = None, vm_argv = None, vm_argc = 0, test_mode = False, cached_ref = 0, calls = []\<rparr>"

text \<open>
  A function of the lifecycle ends in \<open>Inl (e, s)\<close> when the process stops with the
  error \<open>e\<close> in the state \<open>s\<close>, and in \<open>Inr s\<close> when it returns.
\<close>

type_synonym 'vm outcome = "(error \<times> 'vm scripting) + 'vm scripting"

definition then_do :: "'vm outcome \<Rightarrow> ('vm scripting \<Rightarrow> 'vm outcome) \<Rightarrow> 'vm outcome" where
  "then_do r f = (case r of Inl e \<Rightarrow> Inl e | Inr s \<Rightarrow> f s)"

definition called :: "call \<Rightarrow> 'vm scripting \<Rightarrow> 'vm scripting" where
  "called c s = s\<lparr>calls := calls s @ [c]\<rparr>"

definition logfile_message :: "string \<Rightarrow> 'vm scripting \<Rightarrow> 'vm scripting" where
  "logfile_message msg s = called (LogfileMessage msg) s"

definition min_surgescript_version :: string where
  "min_surgescript_version = ''0.5.4''"

text \<open>\<open>fatal_error\<close> does not return.\<close>

definition check_if_compatible :: "'vm collaborators \<Rightarrow> 'vm scripting \<Rightarrow> 'vm outcome" where
  "check_if_compatible L s =
     (if util_versioncode L None < util_versioncode L (Some min_surgescript_version)
      then Inl (FatalError (''This build requires at least SurgeScript '' @
                  min_surgescript_version @ '' (using: '' @ util_version L @ '')''), s)
      else Inr s)"

text \<open>One \<open>scripting_register_\<close>\<open>name\<close>\<open>(vm)\<close>.\<close>

definition register :: "'vm collaborators \<Rightarrow> string \<Rightarrow> 'vm scripting \<Rightarrow> 'vm outcome" where
  "register L n s =
     (case vm s of
        None \<Rightarrow> Inl (NullPointerException, s)
      | Some v \<Rightarrow> Inr (called (Register n) (s\<lparr>vm := Some (scripting_register L n v)\<rparr>)))"

fun register_all :: "'vm collaborators \<Rightarrow> string list \<Rightarrow> 'vm scripting \<Rightarrow> 'vm outcome" where
  "register_all L [] s = Inr s"
| "register_all L (n # ns) s = then_do (register L n s) (register_all L ns)"

definition surgeengine_builtins :: "string list" where
  "surgeengine_builtins =
     [''surgeengine'', ''actor'', ''animation'', ''brick'', ''camera'', ''collisions'',
      ''console'', ''events'', ''input'', ''lang'', ''level'', ''levelmanager'', ''mouse'',
      ''music'', ''obstaclemap'', ''player'', ''prefs'', ''screen'', ''sensor'', ''sound'',
      ''text'', ''time'', ''transform'', ''vector2'', ''web'']"

definition setup_surgeengine :: "'vm collaborators \<Rightarrow> 'vm scripting \<Rightarrow> 'vm outcome" where
  "setup_surgeengine L s = register_all L surgeengine_builtins s"

text \<open>
  \<open>compile_script\<close>. Its parameter is the parser of the VM, whose flags it sets before
  and after the compilation; it compiles with the static \<open>vm\<close>.
\<close>

definition compile_script_flags :: "'vm collaborators \<Rightarrow> string \<Rightarrow> surgescript_parser_flags" where
  "compile_script_flags L filepath =
     (if \<not> assetfs_is_primary_file L filepath
      then or (SSPARSER_DEFAULTS L) (SSPARSER_SKIP_DUPLICATES L)
      else SSPARSER_DEFAULTS L)"

definition compile_script ::
  "'vm collaborators \<Rightarrow> string \<Rightarrow> 'vm scripting \<Rightarrow> (error \<times> 'vm scripting) + int \<times> 'vm scripting"
  where
  "compile_script L filepath s =
     (case vm s of
        None \<Rightarrow> Inl (NullPointerException, s)
      | Some v \<Rightarrow>
          (let flags = compile_script_flags L filepath;
               fullpath = assetfs_fullpath L filepath;
               v1 = parser_set_flags L flags v;
               (success, v2) = vm_compile L fullpath v1;
               v3 = parser_set_flags L (SSPARSER_DEFAULTS L) v2
           in Inr (if success then 0 else - 1,
                   s\<lparr>vm := Some v3,
                     calls := calls s @ [ParserSetFlags flags, VmCompile fullpath,
                                         ParserSetFlags (SSPARSER_DEFAULTS L)]\<rparr>)))"

text \<open>
  Modelled from the spec: \<open>assetfs_foreach_file\<close>, a function of the engine that the
  file only calls: "invoke a callback once per file under a given folder matching an
  extension". The callback is \<open>compile_script\<close>; \<open>compile_scripts\<close> drops the result.
\<close>

fun assetfs_foreach_file :: "'vm collaborators \<Rightarrow> string list \<Rightarrow> 'vm scripting \<Rightarrow> 'vm outcome"
  where
  "assetfs_foreach_file L [] s = Inr s"
| "assetfs_foreach_file L (f # fs) s =
     (case compile_script L f s of
        Inl e \<Rightarrow> Inl e
      | Inr (r, s') \<Rightarrow> assetfs_foreach_file L fs s')"

definition found_test_script :: "'vm collaborators \<Rightarrow> 'vm \<Rightarrow> bool" where
  "found_test_script L v = programpool_exists L v ''Application'' ''state:main''"

definition compile_scripts :: "'vm collaborators \<Rightarrow> 'vm scripting \<Rightarrow> 'vm outcome" where
  "compile_scripts L s =
     then_do (assetfs_foreach_file L (assetfs_script_files L) s)
       (\<lambda>s1. case vm s1 of
                None \<Rightarrow> Inl (NullPointerException, s1)
              | Some v \<Rightarrow>
                  if found_test_script L v
                  then Inr ((logfile_message ''Got a test script...'' s1)\<lparr>test_mode := True\<rparr>)
                  else then_do (register L ''application'' s1)
                         (\<lambda>s2. Inr (s2\<lparr>test_mode := False\<rparr>)))"

definition vm_launch :: "'vm collaborators \<Rightarrow> 'vm scripting \<Rightarrow> 'vm outcome" where
  "vm_launch L s =
     (case vm s of
        None \<Rightarrow> Inl (NullPointerException, s)
      | Some v \<Rightarrow>
          Inr (called (VmLaunchEx (vm_argc s) (vm_argv s))
                 (s\<lparr>vm := Some (vm_launch_ex L (vm_argc s) (vm_argv s) v)\<rparr>)))"

text \<open>
  The loop \<open>while(argc-- > 0) vm_argv[argc] = str_dup(argv[argc])\<close>. The caller passes
  at least \<open>argc\<close> strings; an entry it does not pass stays as allocated.
\<close>

fun copy_arguments :: "nat \<Rightarrow> string list \<Rightarrow> string list \<Rightarrow> string list" where
  "copy_arguments 0 argv dst = dst"
| "copy_arguments (Suc n) argv dst =
     copy_arguments n argv (if n < length argv then dst[n := argv ! n] else dst)"

definition scripting_init ::
  "'vm collaborators \<Rightarrow> int \<Rightarrow> string list \<Rightarrow> 'vm scripting \<Rightarrow> 'vm outcome" where
  "scripting_init L argc argv s =
     then_do (check_if_compatible L (called SetErrorFunctions s))
       (\<lambda>s1. let s2 = called VmCreate (s1\<lparr>vm := Some (vm_create L)\<rparr>);
                  s3 = s2\<lparr>vm_argc := argc,
                          vm_argv := Some (copy_arguments (nat argc) argv
                                             (replicate (nat argc) []))\<rparr>
              in then_do (then_do (setup_surgeengine L s3) (compile_scripts L)) (vm_launch L))"

definition scripting_reload :: "'vm collaborators \<Rightarrow> 'vm scripting \<Rightarrow> 'vm outcome" where
  "scripting_reload L s =
     (let s1 = logfile_message ''Reloading scripts...'' s in
      case vm s1 of
        None \<Rightarrow> Inl (NullPointerException, s1)
      | Some v \<Rightarrow>
          (let (ok, v') = vm_reset L v;
               s2 = called VmReset (s1\<lparr>vm := Some v'\<rparr>)
           in if \<not> ok
              then Inr (logfile_message ''Failed to reload the scripts'' s2)
              else then_do
                     (then_do (then_do (setup_surgeengine L s2) (compile_scripts L))
                        (vm_launch L))
                     (\<lambda>s3. Inr (logfile_message ''The scripts have been reloaded!'' s3))))"

definition scripting_testmode :: "'vm scripting \<Rightarrow> bool" where
  "scripting_testmode s = test_mode s"

text \<open>\<open>scripting_util_surgeengine_object\<close>, called with a VM.\<close>

definition scripting_util_surgeengine_object ::
  "'vm collaborators \<Rightarrow> 'vm \<Rightarrow> 'vm scripting \<Rightarrow>
   (error \<times> 'vm scripting) + surgescript_object \<times> 'vm scripting" where
  "scripting_util_surgeengine_object L v s =
     (let s1 = (if cached_ref s = 0
                then called (PluginObject ''SurgeEngine'')
                       (s\<lparr>cached_ref := plugin_object L v ''SurgeEngine''\<rparr>)
                else s)
      in case objectmanager_get (vm_objectmanager L v) (cached_ref s1) of
           Inl e \<Rightarrow> Inl (e, s1)
         | Inr obj \<Rightarrow> Inr (obj, s1))"

text \<open>The calls \<open>compile_script\<close> makes for one script file.\<close>

definition compile_script_calls :: "'vm collaborators \<Rightarrow> string \<Rightarrow> call list" where
  "compile_script_calls L filepath =
     [ParserSetFlags (if assetfs_is_primary_file L filepath then SSPARSER_DEFAULTS L
                      else or (SSPARSER_DEFAULTS L) (SSPARSER_SKIP_DUPLICATES L)),
      VmCompile (assetfs_fullpath L filepath),
      ParserSetFlags (SSPARSER_DEFAULTS L)]"

text \<open>How often the calls so far resolved the plugin object \<open>SurgeEngine\<close>.\<close>

definition resolutions :: "'vm scripting \<Rightarrow> nat" where
  "resolutions s = count_list (calls s) (PluginObject ''SurgeEngine'')"

text \<open>\<open>scripting_reload()\<close>, then the first lookup of the new session with its VM.\<close>

definition lookup_after_reload ::
  "'vm collaborators \<Rightarrow> 'vm scripting \<Rightarrow>
   ((error \<times> 'vm scripting) + surgescript_object \<times> 'vm scripting) option" where
  "lookup_after_reload L s =
     (case scripting_reload L s of
        Inl e \<Rightarrow> None
      | Inr s' \<Rightarrow>
          (case vm s' of
             None \<Rightarrow> None
           | Some v \<Rightarrow> Some (scripting_util_surgeengine_object L v s')))"

subsection \<open>A small set of collaborators, for concrete evaluation\<close>

text \<open>
  A VM that records the programs of its pool, the flags of its parser and how often it
  was reset. Compiling the file \<open>f\<close> defines \<open>state:main\<close> of the object \<open>f\<close>; the file
  \<open>Override\<close> is the one that is not primary; the plugin object moves by one handle at
  every reset; the runtime version and the success of a reset are parameters.
\<close>

record test_vm =
  test_pool :: "(string \<times> string) list"
  test_flags :: surgescript_parser_flags
  test_resets :: nat

definition test_collaborators :: "int \<Rightarrow> bool \<Rightarrow> string list \<Rightarrow> test_vm collaborators" where
  "test_collaborators runtime reset_ok files =
     \<lparr>util_versioncode = (\<lambda>version. case version of None \<Rightarrow> runtime | Some _ \<Rightarrow> 504),
      util_version = ''runtime'',
      vm_create = \<lparr>test_pool = [], test_flags = 0, test_resets = 0\<rparr>,
      vm_reset = (\<lambda>v. (reset_ok, v\<lparr>test_pool := [], test_resets := Suc (test_resets v)\<rparr>)),
      scripting_register = (\<lambda>n v. v\<lparr>test_pool := (n, ''constructor'') # test_pool v\<rparr>),
      parser_set_flags = (\<lambda>flags v. v\<lparr>test_flags := flags\<rparr>),
      vm_compile = (\<lambda>path v. (True, v\<lparr>test_pool := (path, ''state:main'') # test_pool v\<rparr>)),
      vm_launch_ex = (\<lambda>argc argv v. v),
      programpool_exists = (\<lambda>v object_name fun_name. (object_name, fun_name) \<in> set (test_pool v)),
      vm_objectmanager = (\<lambda>v. example_manager),
      plugin_object = (\<lambda>v n. 2 + test_resets v),
      assetfs_script_files = files,
      assetfs_is_primary_file = (\<lambda>filepath. filepath \<noteq> ''Override''),
      assetfs_fullpath = (\<lambda>filepath. filepath),
      SSPARSER_DEFAULTS = 0,
      SSPARSER_SKIP_DUPLICATES = 1\<rparr>"

definition test_vm0 :: test_vm where
  "test_vm0 = \<lparr>test_pool = [], test_flags = 0, test_resets = 0\<rparr>"

definition test_session :: "test_vm scripting" where
  "test_session =
     \<lparr>vm = Some \<lparr>test_pool = [], test_flags = 0, test_resets = 0\<rparr>,
      vm_argv = Some [''opensurge''], vm_argc = 1, test_mode = False, cached_ref = 0,
      calls = []\<rparr>"

text \<open>The session after its first lookup of the engine facade.\<close>

definition test_session_cached :: "test_vm scripting" where
  "test_session_cached =
     test_session\<lparr>cached_ref := 2, calls := [PluginObject ''SurgeEngine'']\<rparr>"

section \<open>Properties of the transform utilities\<close>

lemma world_position_loop_chain:
  "ancestors m d h = Some as \<Longrightarrow> objects m h = Some obj \<Longrightarrow>
   world_position_loop apply2d m (objectmanager_root m) h obj wp =
     Some (Inr (foldl (\<lambda>q a. if object_transform_changed a then apply2d (object_transform a) q else q)
                  wp as))"
proof (induction d arbitrary: h obj wp as)
  case 0
  then show ?case
    by (subst world_position_loop.simps) (simp split: if_splits)
next
  case (Suc d)
  from Suc.prems have ne: "h \<noteq> objectmanager_root m"
    by (auto split: if_splits)
  from Suc.prems ne obtain p as' where
    p: "objects m (object_parent obj) = Some p" and
    as': "ancestors m d (object_parent obj) = Some as'" and
    as: "as = p # as'"
    by (auto split: option.splits)
  note IH = Suc.IH [OF as' p]
  show ?case
    by (subst world_position_loop.simps) (simp add: ne p as IH objectmanager_get_def)
qed

lemma foldl_skip_unchanged:
  "unchanged_is_identity apply2d as \<Longrightarrow>
   foldl (\<lambda>q a. if object_transform_changed a then apply2d (object_transform a) q else q) wp as =
     compose_chain apply2d as wp"
  by (induction as arbitrary: wp)
     (auto simp: unchanged_is_identity_def compose_chain_def)

text \<open>
  C1. For an object at depth \<open>d\<close> the world position is the local position carried
  through the local transform of every ancestor, from the parent up to and including the
  root, in that order; nothing is cached, the chain is walked at every query. For the
  root (depth 0) it is the local position. The loop skips an ancestor whose transform has
  not changed, which by the library's convention is the identity.
\<close>

theorem world_position_composition:
  assumes "objects m h = Some obj"
    and "ancestors m d h = Some as"
    and "unchanged_is_identity apply2d as"
  shows "scripting_util_world_position apply2d m h =
           Some (Inr (compose_chain apply2d as (transform_position (object_transform obj))))
         \<and> (d = 0 \<longrightarrow> scripting_util_world_position apply2d m h =
                          Some (Inr (transform_position (object_transform obj))))"
proof -
  have main: "scripting_util_world_position apply2d m h =
           Some (Inr (compose_chain apply2d as (transform_position (object_transform obj))))"
    using assms
    by (simp add: scripting_util_world_position_def objectmanager_get_def
        world_position_loop_chain foldl_skip_unchanged)
  moreover have "d = 0 \<Longrightarrow> as = []"
    using assms(2) by (simp split: if_splits)
  ultimately show ?thesis
    by (auto simp: compose_chain_def)
qed


subsection \<open>Depth and updates of one object\<close>

lemma ancestors_depth_unique:
  "ancestors m d h = Some as \<Longrightarrow> ancestors m e h = Some bs \<Longrightarrow> d = e"
proof (induction d arbitrary: e h as bs)
  case 0
  then show ?case by (cases e) (auto split: if_splits)
next
  case (Suc d)
  show ?case
  proof (cases e)
    case 0
    with Suc.prems show ?thesis by (auto split: if_splits)
  next
    case (Suc e')
    with Suc.prems Suc.IH show ?thesis
      by (auto split: if_splits option.splits)
  qed
qed

lemma parent_is_not_self:
  assumes "ancestors m (Suc d) h = Some as" and "objects m h = Some obj"
  shows "object_parent obj \<noteq> h"
proof
  assume eq: "object_parent obj = h"
  from assms obtain as' where "ancestors m d (object_parent obj) = Some as'"
    by (auto split: if_splits option.splits)
  with eq have "ancestors m d h = Some as'" by simp
  from ancestors_depth_unique [OF this assms(1)] show False by simp
qed

lemma ancestors_put_other:
  "ancestors m d g = Some as \<Longrightarrow> (\<And>e. e \<le> d \<Longrightarrow> ancestors m e h = None) \<Longrightarrow>
   ancestors (objectmanager_put m h x) d g = Some as"
proof (induction d arbitrary: g as)
  case 0
  then show ?case by (simp add: objectmanager_put_def split: if_splits)
next
  case (Suc d)
  from Suc.prems(1) have ne: "g \<noteq> objectmanager_root m"
    by (auto split: if_splits)
  from Suc.prems(1) ne obtain og p as' where
    og: "objects m g = Some og" and
    p: "objects m (object_parent og) = Some p" and
    as': "ancestors m d (object_parent og) = Some as'" and
    as: "as = p # as'"
    by (auto split: option.splits)
  have gh: "g \<noteq> h"
    using Suc.prems(1) Suc.prems(2) [of "Suc d"] by auto
  have ph: "object_parent og \<noteq> h"
    using as' Suc.prems(2) [of d] by auto
  have "ancestors (objectmanager_put m h x) d (object_parent og) = Some as'"
    using as' Suc.prems(2) by (intro Suc.IH) auto
  then show ?case
    using ne og p as gh ph by (simp add: objectmanager_put_def)
qed

lemma ancestors_put_self:
  assumes "ancestors m d h = Some as" and "objects m h = Some obj"
    and "object_parent obj' = object_parent obj"
  shows "ancestors (objectmanager_put m h obj') d h = Some as"
proof (cases d)
  case 0
  with assms show ?thesis by (simp add: objectmanager_put_def split: if_splits)
next
  case (Suc n)
  from assms(1) Suc have ne: "h \<noteq> objectmanager_root m"
    by (auto split: if_splits)
  from assms(1,2) Suc ne obtain p as' where
    p: "objects m (object_parent obj) = Some p" and
    as': "ancestors m n (object_parent obj) = Some as'" and
    as: "as = p # as'"
    by (auto split: option.splits)
  have ph: "object_parent obj \<noteq> h"
    using parent_is_not_self assms(1,2) Suc by blast
  have none: "ancestors m e h = None" if "e \<le> n" for e
  proof (cases "ancestors m e h")
    case (Some bs)
    from ancestors_depth_unique [OF Some assms(1)] Suc that show ?thesis by simp
  qed simp
  have "ancestors (objectmanager_put m h obj') n (object_parent obj) = Some as'"
    using as' none by (rule ancestors_put_other)
  then show ?thesis
    using Suc ne p as ph assms(3) by (simp add: objectmanager_put_def)
qed

subsection \<open>The recursions along a chain\<close>

lemma world_angle_chain:
  "ancestors m d h = Some as \<Longrightarrow> objects m h = Some obj \<Longrightarrow> root_is_own_parent m \<Longrightarrow>
   scripting_util_world_angle F m h = Some (Inr (angle_sum F (obj # as)))"
proof (induction d arbitrary: h obj as)
  case 0
  then have "h = objectmanager_root m" "as = []" "object_parent obj = h"
    by (auto simp: root_is_own_parent_def split: if_splits)
  with 0 show ?case
    by (subst scripting_util_world_angle.simps) (simp add: objectmanager_get_def)
next
  case (Suc d)
  from Suc.prems have ne: "h \<noteq> objectmanager_root m"
    by (auto split: if_splits)
  from Suc.prems ne obtain p as' where
    p: "objects m (object_parent obj) = Some p" and
    as': "ancestors m d (object_parent obj) = Some as'" and
    as: "as = p # as'"
    by (auto split: option.splits)
  have ph: "object_parent obj \<noteq> h"
    using parent_is_not_self Suc.prems(1,2) by blast
  note IH = Suc.IH [OF as' p Suc.prems(3)]
  show ?case
    by (subst scripting_util_world_angle.simps)
       (simp add: Suc.prems(2) p ph IH as objectmanager_get_def)
qed

lemma invert_chain_Nil: "invert_chain ainv [] p = p"
  by (simp add: invert_chain_def)

lemma invert_chain_Cons:
  "invert_chain ainv (a # as) p = ainv (object_transform a) (invert_chain ainv as p)"
  by (simp add: invert_chain_def)

lemma sum_rotation_Nil: "sum_rotation [] = 0"
  by (simp add: sum_rotation_def)

lemma sum_rotation_Cons:
  "sum_rotation (a # as) = transform_rotation_z (object_transform a) + sum_rotation as"
  by (simp add: sum_rotation_def)

lemma world2local_chain:
  "ancestors m d h = Some as \<Longrightarrow> objects m h = Some obj \<Longrightarrow>
   world2local ainv F m h (objectmanager_root m) pos ang =
     Some (Inr (map_option (invert_chain ainv (obj # as)) pos,
                map_option (\<lambda>a. local_angle F a (obj # as)) ang))"
proof (induction d arbitrary: h obj as pos ang)
  case 0
  then have "h = objectmanager_root m" "as = []"
    by (auto split: if_splits)
  with 0 show ?case
    by (subst world2local.simps, cases pos; cases ang)
       (simp_all add: objectmanager_get_def invert_chain_Cons invert_chain_Nil)
next
  case (Suc d)
  from Suc.prems have ne: "h \<noteq> objectmanager_root m"
    by (auto split: if_splits)
  from Suc.prems ne obtain p as' where
    p: "objects m (object_parent obj) = Some p" and
    as': "ancestors m d (object_parent obj) = Some as'" and
    as: "as = p # as'"
    by (auto split: option.splits)
  note IH = Suc.IH [OF as' p]
  show ?case
    by (subst world2local.simps, cases pos; cases ang)
       (simp_all add: Suc.prems(2) ne IH as objectmanager_get_def invert_chain_Cons)
qed


lemma exact_additions_angle_sum:
  "exact_additions F as \<Longrightarrow> angle_sum F as = sum_rotation as"
  by (induction as) (simp_all add: sum_rotation_Nil sum_rotation_Cons)

lemma compose_invert_chain:
  "inverse_on apply2d ainv as \<Longrightarrow> compose_chain apply2d as (invert_chain ainv as p) = p"
proof (induction as arbitrary: p)
  case Nil
  show ?case by (simp add: compose_chain_def invert_chain_Nil)
next
  case (Cons a as)
  from Cons.prems have a: "apply2d (object_transform a) (ainv (object_transform a) q) = q" for q
    by (simp add: inverse_on_def del: split_paired_All)
  from Cons.prems have "inverse_on apply2d ainv as"
    by (simp add: inverse_on_def)
  from Cons.IH [OF this] have "compose_chain apply2d as (invert_chain ainv as p) = p" .
  then show ?case
    by (simp add: compose_chain_def invert_chain_Cons a)
qed






lemma rotate_translate_inverse_left:
  "rotate_translate t (rotate_translate_inverse t p) = p"
proof -
  define r where "r = transform_rotation_z t * pi / 180"
  define dx where "dx = fst p - fst (transform_position t)"
  define dy where "dy = snd p - snd (transform_position t)"
  have sq: "cos r * cos r + sin r * sin r = 1"
    using sin_cos_squared_add2 [of r] by (simp add: power2_eq_square)
  have "(dx * cos r + dy * sin r) * cos r - (dy * cos r - dx * sin r) * sin r
          = dx * (cos r * cos r + sin r * sin r)"
    by (simp add: algebra_simps del: sin_cos_squared_add3)
  then have x: "(dx * cos r + dy * sin r) * cos r - (dy * cos r - dx * sin r) * sin r = dx"
    unfolding sq by simp
  have "(dx * cos r + dy * sin r) * sin r + (dy * cos r - dx * sin r) * cos r
          = dy * (cos r * cos r + sin r * sin r)"
    by (simp add: algebra_simps del: sin_cos_squared_add3)
  then have y: "(dx * cos r + dy * sin r) * sin r + (dy * cos r - dx * sin r) * cos r = dy"
    unfolding sq by simp
  have "rotate_translate t (rotate_translate_inverse t p) =
          ((dx * cos r + dy * sin r) * cos r - (dy * cos r - dx * sin r) * sin r
             + fst (transform_position t),
           (dx * cos r + dy * sin r) * sin r + (dy * cos r - dx * sin r) * cos r
             + snd (transform_position t))"
    by (simp add: rotate_translate_def rotate_translate_inverse_def Let_def r_def dx_def dy_def)
  also have "\<dots> = (dx + fst (transform_position t), dy + snd (transform_position t))"
    by (simp only: x y)
  also have "\<dots> = p"
    by (simp add: dx_def dy_def)
  finally show ?thesis .
qed

lemma ancestors_cases:
  assumes "ancestors m d h = Some as" and "objects m h = Some obj"
  obtains (root) "h = objectmanager_root m" "d = 0" "as = []"
  | (below) n p as' where "h \<noteq> objectmanager_root m" "d = Suc n"
      "objects m (object_parent obj) = Some p"
      "ancestors m n (object_parent obj) = Some as'" "as = p # as'"
proof (cases d)
  case 0
  with assms root show ?thesis by (auto split: if_splits)
next
  case (Suc n)
  with assms below show ?thesis by (auto split: if_splits option.splits)
qed

lemma set_world_position_result:
  assumes "objects m h = Some obj" and "ancestors m d h = Some as"
  shows "scripting_util_set_world_position ainv F m h P =
           Some (Inr (objectmanager_put m h (object_set_position (invert_chain ainv as P) obj)))"
  using assms(2,1)
proof (cases rule: ancestors_cases)
  case root
  with assms show ?thesis
    by (simp add: scripting_util_set_world_position_def objectmanager_get_def invert_chain_Nil)
next
  case (below n p as')
  with assms show ?thesis
    by (simp add: scripting_util_set_world_position_def objectmanager_get_def
        world2local_chain [OF below(4,3)])
qed



lemma objects_put_same: "objects (objectmanager_put m h x) h = Some x"
  by (simp add: objectmanager_put_def)

subsection \<open>Rounding to single precision\<close>

lemma round_to_even_of_int: "round_to_even (of_int j) = j"
  by (simp add: round_to_even_def)

lemma float_exponent_eq:
  assumes "2 ^ k \<le> \<bar>x\<bar>" and "\<bar>x\<bar> < 2 ^ Suc k"
  shows "float_exponent x = int k"
proof -
  have "(0::real) < 2 ^ k"
    by simp
  with assms(1) have pos: "0 < \<bar>x\<bar>"
    by linarith
  have "(2::real) powr real k \<le> \<bar>x\<bar>"
    using assms(1) by (simp add: powr_realpow)
  then have lo: "real k \<le> log 2 \<bar>x\<bar>"
    using pos by (simp add: le_log_iff)
  have "\<bar>x\<bar> < (2::real) powr real (Suc k)"
    using assms(2) by (simp only: powr_realpow [of 2 "Suc k"])
  then have hi: "log 2 \<bar>x\<bar> < real (Suc k)"
    using pos by (simp add: log_less_iff)
  show ?thesis
    unfolding float_exponent_def using lo hi by (intro floor_unique) simp_all
qed

lemma float_round_representable:
  assumes "\<bar>n\<bar> < 2 ^ 24"
  shows "float_round (of_int n / 2 ^ k) = of_int n / 2 ^ k"
proof (cases "n = 0")
  case True
  then show ?thesis by (simp add: float_round_def)
next
  case False
  define L where "L = \<lfloor>log 2 (real_of_int \<bar>n\<bar>)\<rfloor>"
  have n1: "1 \<le> real_of_int \<bar>n\<bar>"
    using False by linarith
  have "0 \<le> log 2 (real_of_int \<bar>n\<bar>)"
    using n1 by simp
  then have L0: "0 \<le> L"
    by (simp add: L_def)
  have "real_of_int \<bar>n\<bar> < 2 ^ 24"
    using assms by (metis of_int_less_numeral_power_cancel_iff)
  then have "real_of_int \<bar>n\<bar> < 2 powr 24"
    by simp
  then have "log 2 (real_of_int \<bar>n\<bar>) < 24"
    using n1 by (simp add: log_less_iff)
  then have L23: "L \<le> 23"
    unfolding L_def by linarith
  define j where "j = nat (23 - L)"
  have x: "\<bar>real_of_int n / 2 ^ k\<bar> = real_of_int \<bar>n\<bar> / 2 ^ k"
    by (simp add: abs_divide)
  have "log 2 (real_of_int \<bar>n\<bar> / 2 ^ k) = log 2 (real_of_int \<bar>n\<bar>) - real k"
    using n1 False by (simp add: log_divide log_nat_power)
  then have e: "float_exponent (real_of_int n / 2 ^ k) = L - int k"
    unfolding float_exponent_def x L_def
    using floor_diff_of_int [of "log 2 (real_of_int \<bar>n\<bar>)" "int k"] by simp
  have "L - int k - 23 = - int (j + k)"
    using L23 by (simp add: j_def)
  then have "(2::real) powr of_int (float_exponent (real_of_int n / 2 ^ k) - 23) =
      2 powr (- real (j + k))"
    unfolding e by (metis of_int_minus of_int_of_nat_eq)
  also have "\<dots> = inverse (2 powr real (j + k))"
    by (rule powr_minus)
  also have "\<dots> = inverse (2 ^ (j + k))"
    by (subst powr_realpow) simp_all
  finally have ulp: "(2::real) powr of_int (float_exponent (real_of_int n / 2 ^ k) - 23) =
      inverse (2 ^ (j + k))" .
  have q: "real_of_int n / 2 ^ k / inverse (2 ^ (j + k)) = of_int (n * 2 ^ j)"
    by (simp add: power_add field_simps)
  have nz: "real_of_int n / 2 ^ k \<noteq> 0"
    using False by simp
  have "float_round (real_of_int n / 2 ^ k) = inverse (2 ^ (j + k)) * of_int (n * 2 ^ j)"
    unfolding float_round_def ulp q round_to_even_of_int using nz by simp
  also have "\<dots> = real_of_int n / 2 ^ k"
    by (simp add: power_add field_simps)
  finally show ?thesis .
qed

lemma float_round_numeral:
  "(numeral w :: int) < 2 ^ 24 \<Longrightarrow> float_round (numeral w) = numeral w"
  "(numeral w :: int) < 2 ^ 24 \<Longrightarrow> float_round (- numeral w) = - numeral w"
  using float_round_representable [of "numeral w" 0] float_round_representable [of "- numeral w" 0]
  by simp_all

lemma float_round_zero: "float_round 0 = 0"
  by (simp add: float_round_def)

lemma float_round_halves: "float_round (1 / 2) = 1 / 2" "float_round (273 / 2) = 273 / 2"
  using float_round_representable [of 1 1] float_round_representable [of 273 1]
  by simp_all

lemma float_round_tie: "float_round (33554431 / 2) = 16777216"
proof -
  have e: "float_exponent (33554431 / 2) = int 23"
    by (rule float_exponent_eq) simp_all
  show ?thesis
    by (simp add: float_round_def e round_to_even_def)
qed

lemmas ieee_single_simps =
  ieee_single_def float_round_numeral float_round_zero float_round_halves float_round_tie

subsection \<open>The small tree evaluated\<close>

lemmas example_defs =
  example_manager_def example_root_def example_level_def example_layer_def example_leaf_def
  make_object_def

lemma example_objects:
  "objects example_manager 1 = Some example_root"
  "objects example_manager 4 = Some example_leaf"
  "objectmanager_root example_manager = 1"
  by (simp_all add: example_manager_def)

lemma example_ancestors_root: "ancestors example_manager 0 1 = Some []"
  by (simp add: example_manager_def)

lemma example_ancestors_leaf:
  "ancestors example_manager 3 4 = Some [example_layer, example_level, example_root]"
  by (simp add: example_defs numeral_3_eq_3)

lemma example_root_is_own_parent: "root_is_own_parent example_manager"
  by (simp add: root_is_own_parent_def example_defs)

lemma example_unchanged_is_identity:
  "unchanged_is_identity rotate_translate [example_layer, example_level, example_root]"
  by (simp add: unchanged_is_identity_def example_defs rotate_translate_def)

lemma example_inverse_on:
  "inverse_on rotate_translate rotate_translate_inverse as"
  by (induction as) (simp_all add: inverse_on_def rotate_translate_inverse_left del: split_paired_All)

lemma example_compose:
  "compose_chain rotate_translate [example_layer, example_level, example_root] (1, 0) = (100, - 11)"
  by (simp add: compose_chain_def example_defs rotate_translate_def)

lemma example_sum_rotation:
  "sum_rotation [example_layer, example_level, example_root] = 270"
  by (simp add: sum_rotation_def example_defs)

lemma example_local:
  "transform_position (object_transform example_leaf) = (1, 0)"
  "transform_position (object_transform example_root) = (100, 0)"
  "transform_rotation_z (object_transform example_leaf) = 45"
  by (simp_all add: example_defs)

lemma example_invert:
  "invert_chain rotate_translate_inverse [example_layer, example_level, example_root] (7, 3)
     = (- 13, - 93)"
  by (simp add: invert_chain_def example_defs rotate_translate_inverse_def)


text \<open>C1 on the small tree: the leaf at depth 3 and the root.\<close>

theorem world_position_composition_witness:
  "objects example_manager 4 = Some example_leaf
   \<and> ancestors example_manager 3 4 = Some [example_layer, example_level, example_root]
   \<and> unchanged_is_identity rotate_translate [example_layer, example_level, example_root]
   \<and> scripting_util_world_position rotate_translate example_manager 4 = Some (Inr (100, - 11))
   \<and> scripting_util_world_position rotate_translate example_manager 1 = Some (Inr (100, 0))"
proof -
  have leaf: "scripting_util_world_position rotate_translate example_manager 4 =
      Some (Inr (compose_chain rotate_translate [example_layer, example_level, example_root]
                   (transform_position (object_transform example_leaf))))"
    using world_position_composition [OF example_objects(2) example_ancestors_leaf
        example_unchanged_is_identity]
    by blast
  have "unchanged_is_identity rotate_translate []"
    by (simp add: unchanged_is_identity_def)
  from world_position_composition [OF example_objects(1) example_ancestors_root this]
  have root: "scripting_util_world_position rotate_translate example_manager 1 =
      Some (Inr (transform_position (object_transform example_root)))"
    by blast
  show ?thesis
    using leaf root example_objects(2) example_ancestors_leaf example_unchanged_is_identity
    unfolding example_local example_compose by blast
qed

subsection \<open>Setting and reading back the world position\<close>

text \<open>
  C2. For an object at any depth, \<open>set_world_position(O, P)\<close> stores as the local
  position of \<open>O\<close> the point \<open>P\<close> carried through the inverse transforms of the
  ancestors, the root's first and the immediate parent's last, and the world position
  read back afterwards is \<open>P\<close>. The library's \<open>apply2dinverse\<close> is taken to undo its
  \<open>apply2d\<close> on the transforms of the ancestors, and the arithmetic is exact.
\<close>

theorem set_world_position_round_trip:
  assumes "objects m h = Some obj"
    and "ancestors m d h = Some as"
    and "unchanged_is_identity apply2d as"
    and "inverse_on apply2d apply2dinverse as"
  shows "map_option transform_position
           (stored_transform (scripting_util_set_world_position apply2dinverse F m h P) h) =
           Some (invert_chain apply2dinverse as P)
         \<and> set_then_get_world_position apply2d apply2dinverse F m h P = Some (Inr P)"
proof -
  let ?obj' = "object_set_position (invert_chain apply2dinverse as P) obj"
  let ?m' = "objectmanager_put m h ?obj'"
  have res: "scripting_util_set_world_position apply2dinverse F m h P = Some (Inr ?m')"
    using assms(1,2) by (rule set_world_position_result)
  have par: "object_parent ?obj' = object_parent obj"
    by (simp add: object_set_position_def)
  have anc: "ancestors ?m' d h = Some as"
    using assms(2,1) par by (rule ancestors_put_self)
  have pos: "transform_position (object_transform ?obj') = invert_chain apply2dinverse as P"
    by (simp add: object_set_position_def)
  have "scripting_util_world_position apply2d ?m' h =
          Some (Inr (compose_chain apply2d as (invert_chain apply2dinverse as P)))"
    using anc assms(3)
    by (simp add: scripting_util_world_position_def objectmanager_get_def objects_put_same
        world_position_loop_chain [OF anc objects_put_same] foldl_skip_unchanged pos)
  then have get: "scripting_util_world_position apply2d ?m' h = Some (Inr P)"
    using assms(4) by (simp add: compose_invert_chain)
  show ?thesis
    by (simp add: res get set_then_get_world_position_def stored_transform_def
        objects_put_same pos)
qed

theorem set_world_position_round_trip_witness:
  "objects example_manager 4 = Some example_leaf
   \<and> ancestors example_manager 3 4 = Some [example_layer, example_level, example_root]
   \<and> unchanged_is_identity rotate_translate [example_layer, example_level, example_root]
   \<and> inverse_on rotate_translate rotate_translate_inverse
        [example_layer, example_level, example_root]
   \<and> map_option transform_position
        (stored_transform
           (scripting_util_set_world_position rotate_translate_inverse ieee_single example_manager 4
              (7, 3)) 4)
       = Some (- 13, - 93)
   \<and> set_then_get_world_position rotate_translate rotate_translate_inverse ieee_single
        example_manager 4 (7, 3)
       = Some (Inr (7, 3))"
  using set_world_position_round_trip [OF example_objects(2) example_ancestors_leaf
      example_unchanged_is_identity example_inverse_on, of ieee_single "(7, 3)"]
    example_objects(2) example_ancestors_leaf example_unchanged_is_identity
    example_inverse_on [of "[example_layer, example_level, example_root]"]
  unfolding example_invert by blast

subsection \<open>Setting and reading back the world angle\<close>



lemma example_chain_rotations:
  "transform_rotation_z (object_transform example_layer) = 0"
  "transform_rotation_z (object_transform example_level) = 90"
  "transform_rotation_z (object_transform example_root) = 180"
  by (simp_all add: example_defs)







subsection \<open>The world angle\<close>

text \<open>
  C4, as the code has it. The world angle of an object is the sum of the local rotations
  along the chain from the object to the root, added in float arithmetic from the root
  down to the object, and the root contributes its own rotation: only the sum above the
  root is zero. The base case of the recursion is the root of the tree, which is its own
  parent. When no addition rounds, the world angle is the plain sum.
\<close>

theorem world_angle_sums_chain_and_root:
  assumes "objects m h = Some obj"
    and "ancestors m d h = Some as"
    and "root_is_own_parent m"
  shows "scripting_util_world_angle F m h = Some (Inr (angle_sum F (obj # as)))
         \<and> (h = objectmanager_root m \<longrightarrow>
               scripting_util_world_angle F m h =
                 Some (Inr (float_add F 0 (transform_rotation_z (object_transform obj)))))
         \<and> (exact_additions F (obj # as) \<longrightarrow>
               scripting_util_world_angle F m h =
                 Some (Inr (sum_rotation as + transform_rotation_z (object_transform obj))))"
proof -
  have main: "scripting_util_world_angle F m h = Some (Inr (angle_sum F (obj # as)))"
    using assms(2,1,3) by (rule world_angle_chain)
  have root: "h = objectmanager_root m \<longrightarrow>
      scripting_util_world_angle F m h =
        Some (Inr (float_add F 0 (transform_rotation_z (object_transform obj))))"
  proof
    assume "h = objectmanager_root m"
    with assms(2) have "as = []"
      by (cases d) (simp_all split: if_splits)
    with main show "scripting_util_world_angle F m h =
        Some (Inr (float_add F 0 (transform_rotation_z (object_transform obj))))"
      by simp
  qed
  have "angle_sum F (obj # as) = sum_rotation as + transform_rotation_z (object_transform obj)"
    if "exact_additions F (obj # as)"
    using exact_additions_angle_sum [OF that] by (simp add: sum_rotation_Cons)
  with main root show ?thesis
    by simp
qed

text \<open>C4 on the small tree, in single precision: the leaf and the root.\<close>

theorem world_angle_sums_chain_and_root_witness:
  "objects example_manager 4 = Some example_leaf
   \<and> ancestors example_manager 3 4 = Some [example_layer, example_level, example_root]
   \<and> root_is_own_parent example_manager
   \<and> exact_additions ieee_single [example_leaf, example_layer, example_level, example_root]
   \<and> scripting_util_world_angle ieee_single example_manager 4 = Some (Inr 315)
   \<and> objects example_manager 1 = Some example_root
   \<and> ancestors example_manager 0 1 = Some []
   \<and> 1 = objectmanager_root example_manager
   \<and> scripting_util_world_angle ieee_single example_manager 1 = Some (Inr 180)"
proof -
  have exact: "exact_additions ieee_single
      [example_leaf, example_layer, example_level, example_root]"
    by (simp add: example_chain_rotations example_local ieee_single_simps)
  from world_angle_sums_chain_and_root [OF example_objects(2) example_ancestors_leaf
      example_root_is_own_parent, of ieee_single] exact
  have "scripting_util_world_angle ieee_single example_manager 4 =
      Some (Inr (sum_rotation [example_layer, example_level, example_root]
                 + transform_rotation_z (object_transform example_leaf)))"
    by blast
  then have leaf: "scripting_util_world_angle ieee_single example_manager 4 = Some (Inr 315)"
    unfolding example_sum_rotation example_local by simp
  have r: "1 = objectmanager_root example_manager"
    by (simp add: example_objects(3))
  from world_angle_sums_chain_and_root [OF example_objects(1) example_ancestors_root
      example_root_is_own_parent, of ieee_single] r
  have "scripting_util_world_angle ieee_single example_manager 1 =
      Some (Inr (float_add ieee_single 0 (transform_rotation_z (object_transform example_root))))"
    by blast
  then have root: "scripting_util_world_angle ieee_single example_manager 1 = Some (Inr 180)"
    by (simp add: example_chain_rotations ieee_single_simps)
  show ?thesis
    using leaf root exact r example_objects(1,2) example_ancestors_leaf example_ancestors_root
      example_root_is_own_parent by blast
qed

text \<open>
  C4 as stated fails, in single precision: with the root counted as zero the leaf of the
  small tree would have the world angle 135, and the code returns 315.
\<close>

theorem world_angle_root_counted_zero_counterexample:
  "scripting_util_world_angle ieee_single example_manager 4 = Some (Inr 315)
   \<and> world_angle_root_counted_zero example_manager 4 example_leaf
        [example_layer, example_level, example_root] = 135"
proof -
  have "scripting_util_world_angle ieee_single example_manager 4 =
      Some (Inr (angle_sum ieee_single
                   [example_leaf, example_layer, example_level, example_root]))"
    using example_ancestors_leaf example_objects(2) example_root_is_own_parent
    by (rule world_angle_chain)
  then have code: "scripting_util_world_angle ieee_single example_manager 4 = Some (Inr 315)"
    by (simp add: example_chain_rotations example_local ieee_single_simps)
  have spec: "world_angle_root_counted_zero example_manager 4 example_leaf
                [example_layer, example_level, example_root] = 135"
    by (simp add: world_angle_root_counted_zero_def example_objects(3) example_local
        sum_rotation_def example_chain_rotations)
  show ?thesis
    using code spec by simp
qed

section \<open>Properties of the component lookup\<close>

lemma find_append_last:
  "(\<And>x. x \<in> set xs \<Longrightarrow> P x \<Longrightarrow> x = y) \<Longrightarrow> P y \<Longrightarrow> find P (xs @ [y]) = Some y"
  by (induction xs) auto

lemma object_child_found:
  assumes "objects m objectmanager_null = None"
    and "object_child m parent n \<noteq> objectmanager_null"
  shows "find (names_child m n) (object_children parent) = Some (object_child m parent n)"
  using assms by (auto simp: object_child_def split: option.splits)

lemma object_child_none:
  assumes "objects m objectmanager_null = None"
    and "object_child m parent n = objectmanager_null"
  shows "\<forall>c \<in> set (object_children parent). \<not> names_child m n c"
proof (cases "find (names_child m n) (object_children parent)")
  case None
  then show ?thesis by (simp add: find_None_iff)
next
  case (Some c)
  then have "names_child m n c" by (auto simp: find_Some_iff)
  moreover from Some assms(2) have "c = objectmanager_null" by (simp add: object_child_def)
  ultimately show ?thesis using assms(1) by (simp add: names_child_def)
qed

lemma require_component_existing:
  assumes "objects m h = Some obj" and "objects m (object_parent obj) = Some parent"
    and "object_child m parent n \<noteq> objectmanager_null"
  shows "scripting_util_require_component m h n = Inr (object_child m parent n, m)"
  using assms by (simp add: scripting_util_require_component_def objectmanager_get_def)

lemma require_component_spawns:
  assumes "objects m h = Some obj" and "objects m (object_parent obj) = Some parent"
    and "object_child m parent n = objectmanager_null"
  shows "scripting_util_require_component m h n = objectmanager_spawn m (object_parent obj) n"
  using assms by (simp add: scripting_util_require_component_def objectmanager_get_def)

lemma spawn_then_child:
  assumes "objects m ph = Some parent" and "spawn_ready m"
    and "object_child m parent n = objectmanager_null"
    and "objectmanager_spawn m ph n = Inr (c, m1)"
  shows "c = next_handle m" and "c \<noteq> objectmanager_null"
    and "objects m1 ph = Some (parent\<lparr>object_children := object_children parent @ [c]\<rparr>)"
    and "objects m1 c = Some \<lparr>object_name = n, object_parent = ph, object_children = [],
                        object_transform = identity_transform, object_transform_changed = False\<rparr>"
    and "\<And>g. g \<noteq> ph \<Longrightarrow> g \<noteq> c \<Longrightarrow> objects m1 g = objects m g"
    and "object_child m1 (parent\<lparr>object_children := object_children parent @ [c]\<rparr>) n = c"
proof -
  from assms(1,2) have ne: "next_handle m \<noteq> ph"
    by (auto simp: spawn_ready_def)
  from assms(1,4) show c: "c = next_handle m"
    by (auto simp: objectmanager_spawn_def objectmanager_get_def Let_def)
  from c assms(2) show "c \<noteq> objectmanager_null"
    by (simp add: spawn_ready_def)
  from assms(1,4) ne show ph: "objects m1 ph = Some (parent\<lparr>object_children := object_children parent @ [c]\<rparr>)"
    by (auto simp: objectmanager_spawn_def objectmanager_get_def Let_def)
  from assms(1,4) show cc: "objects m1 c = Some \<lparr>object_name = n, object_parent = ph, object_children = [],
                        object_transform = identity_transform, object_transform_changed = False\<rparr>"
    by (auto simp: objectmanager_spawn_def objectmanager_get_def Let_def)
  from assms(1,4) show other: "\<And>g. g \<noteq> ph \<Longrightarrow> g \<noteq> c \<Longrightarrow> objects m1 g = objects m g"
    by (auto simp: objectmanager_spawn_def objectmanager_get_def Let_def)
  have none: "\<forall>x \<in> set (object_children parent). \<not> names_child m n x"
    using assms(2,3) by (intro object_child_none) (simp_all add: spawn_ready_def)
  have "x = c" if "x \<in> set (object_children parent)" "names_child m1 n x" for x
  proof (rule ccontr)
    assume xc: "x \<noteq> c"
    from none that(1) have no: "\<not> names_child m n x" by blast
    show False
    proof (cases "x = ph")
      case True
      with that(2) ph have "object_name parent = n" by (simp add: names_child_def)
      with True assms(1) no show False by (simp add: names_child_def)
    next
      case False
      with xc other have "objects m1 x = objects m x" by blast
      with that(2) no show False by (simp add: names_child_def)
    qed
  qed
  moreover have "names_child m1 n c"
    using cc by (simp add: names_child_def)
  ultimately have "find (names_child m1 n) (object_children parent @ [c]) = Some c"
    by (intro find_append_last) blast+
  then show "object_child m1 (parent\<lparr>object_children := object_children parent @ [c]\<rparr>) n = c"
    by (simp add: object_child_def)
qed

text \<open>
  C5. \<open>require_component(O, name)\<close> searches the children of the parent of \<open>O\<close> for one
  called \<open>name\<close> and returns it; only when there is none it spawns one under the parent.
  A second call returns the same handle and changes nothing: over both calls the parent
  gains the one new child when none existed, and no child otherwise.
\<close>

theorem require_component_get_or_create:
  assumes "objects m h = Some obj"
    and "objects m (object_parent obj) = Some parent"
    and "spawn_ready m"
  shows "\<exists>c m1. scripting_util_require_component m h n = Inr (c, m1)
           \<and> scripting_util_require_component m1 h n = Inr (c, m1)
           \<and> c \<noteq> objectmanager_null
           \<and> map_option object_name (objects m1 c) = Some n
           \<and> c \<in> set (children_of m1 (object_parent obj))
           \<and> (if object_child m parent n = objectmanager_null
               then children_of m1 (object_parent obj) = children_of m (object_parent obj) @ [c]
                    \<and> objects m c = None
               else m1 = m \<and> c = object_child m parent n)"
proof (cases "object_child m parent n = objectmanager_null")
  case False
  let ?c = "object_child m parent n"
  have null: "objects m objectmanager_null = None"
    using assms(3) by (simp add: spawn_ready_def)
  from object_child_found [OF null False]
  have f: "find (names_child m n) (object_children parent) = Some ?c" .
  then have "names_child m n ?c" "?c \<in> set (object_children parent)"
    by (auto simp: find_Some_iff)
  then have "map_option object_name (objects m ?c) = Some n"
    and "?c \<in> set (children_of m (object_parent obj))"
    using assms(2) by (auto simp: names_child_def children_of_def split: option.splits)
  with False require_component_existing [OF assms(1,2) False] show ?thesis
    by auto
next
  case True
  let ?ph = "object_parent obj"
  from assms(2) obtain c m1 where sp: "objectmanager_spawn m ?ph n = Inr (c, m1)"
    by (auto simp: objectmanager_spawn_def objectmanager_get_def Let_def)
  note facts = spawn_then_child [OF assms(2,3) True sp]
  let ?parent' = "parent\<lparr>object_children := object_children parent @ [c]\<rparr>"
  have first: "scripting_util_require_component m h n = Inr (c, m1)"
    using require_component_spawns [OF assms(1,2) True] sp by simp
  have hc: "h \<noteq> c"
    using facts(1) assms(1,3) by (auto simp: spawn_ready_def)
  obtain obj1 where obj1: "objects m1 h = Some obj1" "object_parent obj1 = ?ph"
  proof (cases "h = ?ph")
    case True
    with facts(3) assms(1,2) that show ?thesis by simp
  next
    case False
    with hc facts(5) [of h] assms(1) that show ?thesis by simp
  qed
  have second: "scripting_util_require_component m1 h n = Inr (c, m1)"
    using obj1 facts(2,3,6)
    by (simp add: scripting_util_require_component_def objectmanager_get_def)
  have "children_of m1 ?ph = children_of m ?ph @ [c]"
    using facts(3) assms(2) by (simp add: children_of_def)
  moreover have "objects m c = None"
    using facts(1) assms(3) by (simp add: spawn_ready_def)
  moreover have "map_option object_name (objects m1 c) = Some n"
    using facts(4) by simp
  ultimately show ?thesis
    using True first second facts(2) by auto
qed

lemma example_spawn_ready: "spawn_ready example_manager"
  by (simp add: spawn_ready_def example_manager_def objectmanager_null_def)

lemma example_leaf_parent:
  "objects example_manager (object_parent example_leaf) = Some example_layer"
  by (simp add: example_defs)

lemma example_no_camera:
  "object_child example_manager example_layer ''Camera'' = objectmanager_null"
  by (simp add: object_child_def names_child_def example_defs)

lemma example_children_layer: "children_of example_manager (object_parent example_leaf) = [4]"
  by (simp add: children_of_def example_defs)

lemma example_next_handle: "next_handle example_manager = 5"
  by (simp add: example_manager_def)

text \<open>C5 on the small tree: the leaf asks twice for a \<open>Camera\<close> beside it.\<close>

theorem require_component_get_or_create_witness:
  "objects example_manager 4 = Some example_leaf
   \<and> objects example_manager (object_parent example_leaf) = Some example_layer
   \<and> spawn_ready example_manager
   \<and> (\<exists>m1. scripting_util_require_component example_manager 4 ''Camera'' = Inr (5, m1)
          \<and> scripting_util_require_component m1 4 ''Camera'' = Inr (5, m1)
          \<and> children_of m1 (object_parent example_leaf) = [4, 5])"
proof -
  from require_component_get_or_create [OF example_objects(2) example_leaf_parent
      example_spawn_ready, of "''Camera''"]
  obtain c m1 where
    first: "scripting_util_require_component example_manager 4 ''Camera'' = Inr (c, m1)" and
    second: "scripting_util_require_component m1 4 ''Camera'' = Inr (c, m1)" and
    children: "children_of m1 (object_parent example_leaf) =
                 children_of example_manager (object_parent example_leaf) @ [c]"
    unfolding example_no_camera by auto
  have "scripting_util_require_component example_manager 4 ''Camera'' =
          objectmanager_spawn example_manager (object_parent example_leaf) ''Camera''"
    using example_objects(2) example_leaf_parent example_no_camera
    by (rule require_component_spawns)
  with first have "objectmanager_spawn example_manager (object_parent example_leaf) ''Camera''
      = Inr (c, m1)" by simp
  from spawn_then_child(1) [OF example_leaf_parent example_spawn_ready example_no_camera this]
  have c: "c = 5" by (simp add: example_next_handle)
  show ?thesis
    using first second children example_objects(2) example_leaf_parent example_spawn_ready
    unfolding c example_children_layer by auto
qed

section \<open>Properties of the lifecycle\<close>

lemma then_do_Inr:
  "then_do r f = Inr s' \<longleftrightarrow> (\<exists>s1. r = Inr s1 \<and> f s1 = Inr s')"
  by (cases r) (simp_all add: then_do_def)

lemma then_do_simps:
  "then_do (Inr s) f = f s" "then_do (Inl e) f = Inl e"
  by (simp_all add: then_do_def)

lemma register_Some:
  "vm s = Some v \<Longrightarrow>
   register L n s = Inr (called (Register n) (s\<lparr>vm := Some (scripting_register L n v)\<rparr>))"
  by (simp add: register_def)

lemma register_all_runs:
  "vm s \<noteq> None \<Longrightarrow>
   \<exists>s'. register_all L ns s = Inr s' \<and> vm s' \<noteq> None \<and> calls s' = calls s @ map Register ns
        \<and> vm_argv s' = vm_argv s \<and> vm_argc s' = vm_argc s \<and> test_mode s' = test_mode s
        \<and> cached_ref s' = cached_ref s"
proof (induction ns arbitrary: s)
  case Nil
  then show ?case by simp
next
  case (Cons n ns)
  then obtain v where v: "vm s = Some v" by auto
  let ?s1 = "called (Register n) (s\<lparr>vm := Some (scripting_register L n v)\<rparr>)"
  have "vm ?s1 \<noteq> None" by (simp add: called_def)
  from Cons.IH [OF this] obtain s' where
    "register_all L ns ?s1 = Inr s'" "vm s' \<noteq> None" "calls s' = calls ?s1 @ map Register ns"
    "vm_argv s' = vm_argv ?s1" "vm_argc s' = vm_argc ?s1" "test_mode s' = test_mode ?s1"
    "cached_ref s' = cached_ref ?s1"
    by blast
  then show ?case
    by (simp add: register_Some [OF v] then_do_simps called_def)
qed

lemma compile_script_runs:
  assumes "vm s = Some v"
  shows "\<exists>r s'. compile_script L filepath s = Inr (r, s')
           \<and> vm s' = Some (parser_set_flags L (SSPARSER_DEFAULTS L)
                 (snd (vm_compile L (assetfs_fullpath L filepath)
                    (parser_set_flags L (compile_script_flags L filepath) v))))
           \<and> calls s' = calls s @ compile_script_calls L filepath
           \<and> vm_argv s' = vm_argv s \<and> vm_argc s' = vm_argc s \<and> test_mode s' = test_mode s
           \<and> cached_ref s' = cached_ref s"
  using assms
  by (simp add: compile_script_def compile_script_calls_def compile_script_flags_def Let_def
      split: prod.splits)

lemma assetfs_foreach_file_runs:
  "vm s \<noteq> None \<Longrightarrow>
   \<exists>s'. assetfs_foreach_file L fs s = Inr s' \<and> vm s' \<noteq> None
        \<and> calls s' = calls s @ concat (map (compile_script_calls L) fs)
        \<and> vm_argv s' = vm_argv s \<and> vm_argc s' = vm_argc s \<and> test_mode s' = test_mode s
        \<and> cached_ref s' = cached_ref s"
proof (induction fs arbitrary: s)
  case Nil
  then show ?case by simp
next
  case (Cons f fs)
  then obtain v where v: "vm s = Some v" by auto
  from compile_script_runs [OF v, of L f] obtain r s1 where
    s1: "compile_script L f s = Inr (r, s1)" "vm s1 \<noteq> None"
    "calls s1 = calls s @ compile_script_calls L f"
    "vm_argv s1 = vm_argv s" "vm_argc s1 = vm_argc s" "test_mode s1 = test_mode s"
    "cached_ref s1 = cached_ref s"
    by auto
  from Cons.IH [OF s1(2)] obtain s' where
    "assetfs_foreach_file L fs s1 = Inr s'" "vm s' \<noteq> None"
    "calls s' = calls s1 @ concat (map (compile_script_calls L) fs)"
    "vm_argv s' = vm_argv s1" "vm_argc s' = vm_argc s1" "test_mode s' = test_mode s1"
    "cached_ref s' = cached_ref s1"
    by blast
  with s1 show ?case by simp
qed

lemma compile_scripts_runs:
  assumes "vm s \<noteq> None"
  shows "\<exists>s1 v s'. assetfs_foreach_file L (assetfs_script_files L) s = Inr s1 \<and> vm s1 = Some v
           \<and> compile_scripts L s = Inr s'
           \<and> vm_argv s' = vm_argv s \<and> vm_argc s' = vm_argc s \<and> cached_ref s' = cached_ref s
           \<and> (if programpool_exists L v ''Application'' ''state:main''
               then test_mode s' \<and> vm s' = Some v
                    \<and> calls s' = calls s1 @ [LogfileMessage ''Got a test script...'']
               else \<not> test_mode s' \<and> vm s' = Some (scripting_register L ''application'' v)
                    \<and> calls s' = calls s1 @ [Register ''application''])"
proof -
  from assetfs_foreach_file_runs [OF assms, of L "assetfs_script_files L"] obtain s1 v where
    s1: "assetfs_foreach_file L (assetfs_script_files L) s = Inr s1" "vm s1 = Some v"
    "vm_argv s1 = vm_argv s" "vm_argc s1 = vm_argc s" "cached_ref s1 = cached_ref s"
    by auto
  show ?thesis
    using s1
    by (simp add: compile_scripts_def then_do_simps found_test_script_def register_Some
        logfile_message_def called_def)
qed

lemma vm_launch_runs:
  "vm s = Some v \<Longrightarrow>
   vm_launch L s = Inr (called (VmLaunchEx (vm_argc s) (vm_argv s))
                          (s\<lparr>vm := Some (vm_launch_ex L (vm_argc s) (vm_argv s) v)\<rparr>))"
  by (simp add: vm_launch_def)

lemma start_session_runs:
  assumes "vm s \<noteq> None"
  shows "\<exists>s'. then_do (then_do (setup_surgeengine L s) (compile_scripts L)) (vm_launch L) = Inr s'
           \<and> vm s' \<noteq> None \<and> vm_argv s' = vm_argv s \<and> vm_argc s' = vm_argc s
           \<and> cached_ref s' = cached_ref s
           \<and> (\<exists>cs. calls s' = calls s @ map Register surgeengine_builtins @ cs)"
proof -
  from register_all_runs [OF assms, of L surgeengine_builtins] obtain s1 where
    s1: "setup_surgeengine L s = Inr s1" "vm s1 \<noteq> None"
    "calls s1 = calls s @ map Register surgeengine_builtins"
    "vm_argv s1 = vm_argv s" "vm_argc s1 = vm_argc s" "cached_ref s1 = cached_ref s"
    by (auto simp: setup_surgeengine_def)
  from assetfs_foreach_file_runs [OF s1(2), of L "assetfs_script_files L"] obtain sf where
    sf: "assetfs_foreach_file L (assetfs_script_files L) s1 = Inr sf"
    "calls sf = calls s1 @ concat (map (compile_script_calls L) (assetfs_script_files L))"
    by blast
  from compile_scripts_runs [OF s1(2), of L] sf(1) obtain v s2 where
    s2: "vm sf = Some v" "compile_scripts L s1 = Inr s2"
    "vm_argv s2 = vm_argv s1" "vm_argc s2 = vm_argc s1" "cached_ref s2 = cached_ref s1"
    "if programpool_exists L v ''Application'' ''state:main''
     then test_mode s2 \<and> vm s2 = Some v
          \<and> calls s2 = calls sf @ [LogfileMessage ''Got a test script...'']
     else \<not> test_mode s2 \<and> vm s2 = Some (scripting_register L ''application'' v)
          \<and> calls s2 = calls sf @ [Register ''application'']"
    by auto
  from s2(6) obtain v2 cs where v2: "vm s2 = Some v2" and cs: "calls s2 = calls sf @ cs"
    by (auto split: if_splits)
  show ?thesis
    using s1 s2 sf(2) cs
    by (simp add: then_do_simps vm_launch_runs [OF v2] called_def)
qed

lemma scripting_reload_keeps_cached_ref:
  assumes "scripting_reload L s = Inr s'"
  shows "cached_ref s' = cached_ref s"
proof (cases "vm s")
  case None
  with assms show ?thesis
    by (simp add: scripting_reload_def logfile_message_def called_def)
next
  case (Some v)
  obtain ok v' where r: "vm_reset L v = (ok, v')" by (cases "vm_reset L v")
  let ?s2 = "called VmReset (logfile_message ''Reloading scripts...'' s\<lparr>vm := Some v'\<rparr>)"
  show ?thesis
  proof (cases ok)
    case False
    with assms Some r show ?thesis
      by (auto simp: scripting_reload_def logfile_message_def called_def)
  next
    case True
    have "vm ?s2 \<noteq> None" by (simp add: called_def)
    from start_session_runs [OF this, of L] obtain s3 where
      "then_do (then_do (setup_surgeengine L ?s2) (compile_scripts L)) (vm_launch L) = Inr s3"
      "cached_ref s3 = cached_ref ?s2"
      by blast
    with assms Some r True show ?thesis
      by (auto simp: scripting_reload_def logfile_message_def called_def then_do_simps)
  qed
qed

lemma scripting_reload_returns:
  assumes "vm s \<noteq> None"
  shows "\<exists>s'. scripting_reload L s = Inr s'"
proof -
  from assms obtain v where v: "vm s = Some v" by auto
  obtain ok v' where r: "vm_reset L v = (ok, v')" by (cases "vm_reset L v")
  let ?s2 = "called VmReset (logfile_message ''Reloading scripts...'' s\<lparr>vm := Some v'\<rparr>)"
  have "vm ?s2 \<noteq> None" by (simp add: called_def)
  from start_session_runs [OF this, of L] obtain s3 where
    "then_do (then_do (setup_surgeengine L ?s2) (compile_scripts L)) (vm_launch L) = Inr s3"
    by blast
  with v r show ?thesis
    by (cases ok) (auto simp: scripting_reload_def logfile_message_def called_def then_do_simps)
qed

lemma test_session_vm: "vm test_session = Some test_vm0" "vm test_session \<noteq> None"
  by (simp_all add: test_session_def test_vm0_def)

lemma test_foreach_application:
  "assetfs_foreach_file (test_collaborators 504 True [''Application''])
     (assetfs_script_files (test_collaborators 504 True [''Application''])) test_session =
   Inr (test_session\<lparr>vm := Some \<lparr>test_pool = [(''Application'', ''state:main'')],
                                  test_flags = 0, test_resets = 0\<rparr>,
                      calls := [ParserSetFlags 0, VmCompile ''Application'', ParserSetFlags 0]\<rparr>)"
  by (simp add: test_collaborators_def test_session_def compile_script_def
      compile_script_flags_def Let_def)

lemma test_foreach_level:
  "assetfs_foreach_file (test_collaborators 504 True [''Level''])
     (assetfs_script_files (test_collaborators 504 True [''Level''])) test_session =
   Inr (test_session\<lparr>vm := Some \<lparr>test_pool = [(''Level'', ''state:main'')],
                                  test_flags = 0, test_resets = 0\<rparr>,
                      calls := [ParserSetFlags 0, VmCompile ''Level'', ParserSetFlags 0]\<rparr>)"
  by (simp add: test_collaborators_def test_session_def compile_script_def
      compile_script_flags_def Let_def)

text \<open>
  C6. After the script files are compiled, \<open>compile_scripts\<close> asks the program pool for
  the function \<open>state:main\<close> of the object \<open>Application\<close>. When it is there the test
  mode is set, a message is logged and the default application is not registered; when
  it is not there the default application is registered and the test mode is cleared.
\<close>

theorem compile_scripts_detects_test_script:
  assumes "vm s \<noteq> None"
  shows "\<exists>s1 v s'. assetfs_foreach_file L (assetfs_script_files L) s = Inr s1 \<and> vm s1 = Some v
           \<and> compile_scripts L s = Inr s'
           \<and> (if programpool_exists L v ''Application'' ''state:main''
               then scripting_testmode s' \<and> vm s' = Some v
                    \<and> calls s' = calls s1 @ [LogfileMessage ''Got a test script...'']
               else \<not> scripting_testmode s'
                    \<and> vm s' = Some (scripting_register L ''application'' v)
                    \<and> calls s' = calls s1 @ [Register ''application''])"
  using compile_scripts_runs [OF assms, of L] unfolding scripting_testmode_def by blast

theorem compile_scripts_detects_test_script_witness:
  "vm test_session \<noteq> None
   \<and> (\<exists>s'. compile_scripts (test_collaborators 504 True [''Application'']) test_session = Inr s'
          \<and> scripting_testmode s'
          \<and> calls s' = [ParserSetFlags 0, VmCompile ''Application'', ParserSetFlags 0,
                        LogfileMessage ''Got a test script...''])
   \<and> (\<exists>s'. compile_scripts (test_collaborators 504 True [''Level'']) test_session = Inr s'
          \<and> \<not> scripting_testmode s'
          \<and> calls s' = [ParserSetFlags 0, VmCompile ''Level'', ParserSetFlags 0,
                        Register ''application''])"
proof -
  from compile_scripts_detects_test_script [OF test_session_vm(2),
      of "test_collaborators 504 True [''Application'']"]
  have a: "\<exists>s'. compile_scripts (test_collaborators 504 True [''Application'']) test_session = Inr s'
          \<and> scripting_testmode s'
          \<and> calls s' = [ParserSetFlags 0, VmCompile ''Application'', ParserSetFlags 0,
                        LogfileMessage ''Got a test script...'']"
    unfolding test_foreach_application
    by (auto simp: test_collaborators_def split: if_splits)
  from compile_scripts_detects_test_script [OF test_session_vm(2),
      of "test_collaborators 504 True [''Level'']"]
  have b: "\<exists>s'. compile_scripts (test_collaborators 504 True [''Level'']) test_session = Inr s'
          \<and> \<not> scripting_testmode s'
          \<and> calls s' = [ParserSetFlags 0, VmCompile ''Level'', ParserSetFlags 0,
                        Register ''application'']"
    unfolding test_foreach_level
    by (auto simp: test_collaborators_def split: if_splits)
  from a b test_session_vm(2) show ?thesis by blast
qed

text \<open>
  C7. When the version code of the runtime is below the one of \<open>0.5.4\<close>,
  \<open>scripting_init\<close> stops with a fatal error in the state it was called in, to which only
  the registration of the error functions was added: no VM was created, the arguments
  were not copied and the test mode was not touched. Otherwise the guard returns, and the
  initialization goes on to create the VM.
\<close>

theorem incompatible_version_is_fatal:
  "(util_versioncode L None < util_versioncode L (Some ''0.5.4'') \<longrightarrow>
      (\<exists>msg. scripting_init L argc argv s = Inl (FatalError msg, called SetErrorFunctions s))
      \<and> vm (called SetErrorFunctions s) = vm s
      \<and> vm_argv (called SetErrorFunctions s) = vm_argv s
      \<and> vm_argc (called SetErrorFunctions s) = vm_argc s
      \<and> test_mode (called SetErrorFunctions s) = test_mode s
      \<and> calls (called SetErrorFunctions s) = calls s @ [SetErrorFunctions])
   \<and> (\<not> util_versioncode L None < util_versioncode L (Some ''0.5.4'') \<longrightarrow>
      check_if_compatible L (called SetErrorFunctions s) = Inr (called SetErrorFunctions s)
      \<and> (\<exists>s'. scripting_init L argc argv s = Inr s' \<and> vm s' \<noteq> None \<and> vm_argc s' = argc
            \<and> (\<exists>cs. calls s' = calls s @ [SetErrorFunctions, VmCreate] @ cs)))"
proof (intro conjI impI)
  assume low: "util_versioncode L None < util_versioncode L (Some ''0.5.4'')"
  then show "\<exists>msg. scripting_init L argc argv s = Inl (FatalError msg, called SetErrorFunctions s)"
    by (simp add: scripting_init_def check_if_compatible_def min_surgescript_version_def
        then_do_simps)
next
  assume ok: "\<not> util_versioncode L None < util_versioncode L (Some ''0.5.4'')"
  then show guard:
    "check_if_compatible L (called SetErrorFunctions s) = Inr (called SetErrorFunctions s)"
    by (simp add: check_if_compatible_def min_surgescript_version_def)
  define s3 where "s3 = (called VmCreate ((called SetErrorFunctions s)\<lparr>vm := Some (vm_create L)\<rparr>))
               \<lparr>vm_argc := argc,
                vm_argv := Some (copy_arguments (nat argc) argv (replicate (nat argc) []))\<rparr>"
  have init: "scripting_init L argc argv s =
      then_do (then_do (setup_surgeengine L s3) (compile_scripts L)) (vm_launch L)"
    by (simp only: scripting_init_def guard then_do_simps Let_def s3_def)
  have s3: "vm s3 \<noteq> None" "vm_argc s3 = argc" "calls s3 = calls s @ [SetErrorFunctions, VmCreate]"
    by (simp_all add: s3_def called_def)
  from start_session_runs [OF s3(1), of L] obtain s' cs where
    "then_do (then_do (setup_surgeengine L s3) (compile_scripts L)) (vm_launch L) = Inr s'"
    "vm s' \<noteq> None" "vm_argc s' = vm_argc s3"
    "calls s' = calls s3 @ map Register surgeengine_builtins @ cs"
    by blast
  then show "\<exists>s'. scripting_init L argc argv s = Inr s' \<and> vm s' \<noteq> None \<and> vm_argc s' = argc
            \<and> (\<exists>cs. calls s' = calls s @ [SetErrorFunctions, VmCreate] @ cs)"
    unfolding init s3(2,3) by auto
qed (simp_all add: called_def)

theorem incompatible_version_is_fatal_witness:
  "util_versioncode (test_collaborators 503 True []) None
     < util_versioncode (test_collaborators 503 True []) (Some ''0.5.4'')
   \<and> (\<exists>msg. scripting_init (test_collaborators 503 True []) 1 [''opensurge''] initial_scripting =
         Inl (FatalError msg, called SetErrorFunctions initial_scripting))
   \<and> \<not> util_versioncode (test_collaborators 504 True []) None
         < util_versioncode (test_collaborators 504 True []) (Some ''0.5.4'')
   \<and> (\<exists>s'. scripting_init (test_collaborators 504 True []) 1 [''opensurge''] initial_scripting =
         Inr s' \<and> vm s' \<noteq> None)"
proof -
  have low: "util_versioncode (test_collaborators 503 True []) None
     < util_versioncode (test_collaborators 503 True []) (Some ''0.5.4'')"
    by (simp add: test_collaborators_def)
  have ok: "\<not> util_versioncode (test_collaborators 504 True []) None
         < util_versioncode (test_collaborators 504 True []) (Some ''0.5.4'')"
    by (simp add: test_collaborators_def)
  from incompatible_version_is_fatal [of "test_collaborators 503 True []" 1 "[''opensurge'']"
      initial_scripting] low
  have a: "\<exists>msg. scripting_init (test_collaborators 503 True []) 1 [''opensurge'']
      initial_scripting = Inl (FatalError msg, called SetErrorFunctions initial_scripting)"
    by blast
  from incompatible_version_is_fatal [of "test_collaborators 504 True []" 1 "[''opensurge'']"
      initial_scripting] ok
  have b: "\<exists>s'. scripting_init (test_collaborators 504 True []) 1 [''opensurge''] initial_scripting =
         Inr s' \<and> vm s' \<noteq> None"
    by blast
  from low ok a b show ?thesis by blast
qed

text \<open>
  C8. When the reset of the VM fails, \<open>scripting_reload\<close> logs the failure and returns:
  after the reset it registers nothing, compiles nothing and launches nothing, and it
  leaves the copied arguments and the test mode as they were.
\<close>

theorem reload_aborts_when_reset_fails:
  assumes "vm s = Some v" and "\<not> fst (vm_reset L v)"
  shows "\<exists>s'. scripting_reload L s = Inr s'
           \<and> calls s' = calls s @ [LogfileMessage ''Reloading scripts...'', VmReset,
                                    LogfileMessage ''Failed to reload the scripts'']
           \<and> vm s' = Some (snd (vm_reset L v))
           \<and> vm_argv s' = vm_argv s \<and> vm_argc s' = vm_argc s
           \<and> scripting_testmode s' = scripting_testmode s"
proof -
  obtain ok v' where r: "vm_reset L v = (ok, v')" by (cases "vm_reset L v")
  with assms(2) have "\<not> ok" by simp
  with assms(1) r show ?thesis
    by (simp add: scripting_reload_def logfile_message_def called_def scripting_testmode_def)
qed

theorem reload_aborts_when_reset_fails_witness:
  "vm test_session = Some test_vm0
   \<and> \<not> fst (vm_reset (test_collaborators 504 False []) test_vm0)
   \<and> (\<exists>s'. scripting_reload (test_collaborators 504 False []) test_session = Inr s'
          \<and> calls s' = [LogfileMessage ''Reloading scripts...'', VmReset,
                        LogfileMessage ''Failed to reload the scripts'']
          \<and> vm_argv s' = Some [''opensurge''] \<and> vm_argc s' = 1 \<and> \<not> scripting_testmode s')"
proof -
  have fails: "\<not> fst (vm_reset (test_collaborators 504 False []) test_vm0)"
    by (simp add: test_collaborators_def)
  have s: "calls test_session = []" "vm_argv test_session = Some [''opensurge'']"
    "vm_argc test_session = 1" "\<not> scripting_testmode test_session"
    by (simp_all add: test_session_def scripting_testmode_def)
  from reload_aborts_when_reset_fails [OF test_session_vm(1) fails] s
  have "\<exists>s'. scripting_reload (test_collaborators 504 False []) test_session = Inr s'
          \<and> calls s' = [LogfileMessage ''Reloading scripts...'', VmReset,
                        LogfileMessage ''Failed to reload the scripts'']
          \<and> vm_argv s' = Some [''opensurge''] \<and> vm_argc s' = 1 \<and> \<not> scripting_testmode s'"
    by auto
  with test_session_vm(1) fails show ?thesis by blast
qed

text \<open>
  C9. \<open>compile_script\<close> sets the flags of the parser, compiles the file and sets the
  flags back to the defaults. The flags are the defaults for a primary file and the
  defaults with the skip-duplicates flag for any other file. Over the whole enumeration
  every file is compiled between its own two settings of the flags, so the relaxation
  never reaches the next file.
\<close>

theorem scripts_compiled_with_flags:
  assumes "vm s = Some v"
  shows "(\<exists>r s'. compile_script L filepath s = Inr (r, s')
            \<and> calls s' = calls s @
                [ParserSetFlags (if assetfs_is_primary_file L filepath then SSPARSER_DEFAULTS L
                                 else or (SSPARSER_DEFAULTS L) (SSPARSER_SKIP_DUPLICATES L)),
                 VmCompile (assetfs_fullpath L filepath),
                 ParserSetFlags (SSPARSER_DEFAULTS L)]
            \<and> vm s' = Some (parser_set_flags L (SSPARSER_DEFAULTS L)
                  (snd (vm_compile L (assetfs_fullpath L filepath)
                     (parser_set_flags L
                        (if assetfs_is_primary_file L filepath then SSPARSER_DEFAULTS L
                         else or (SSPARSER_DEFAULTS L) (SSPARSER_SKIP_DUPLICATES L)) v)))))
         \<and> (\<exists>s'. assetfs_foreach_file L files s = Inr s'
              \<and> calls s' = calls s @ concat (map (compile_script_calls L) files))"
proof -
  have "vm s \<noteq> None" using assms by simp
  from assetfs_foreach_file_runs [OF this, of L files]
  have "\<exists>s'. assetfs_foreach_file L files s = Inr s'
              \<and> calls s' = calls s @ concat (map (compile_script_calls L) files)"
    by blast
  moreover from compile_script_runs [OF assms, of L filepath]
  have "\<exists>r s'. compile_script L filepath s = Inr (r, s')
            \<and> calls s' = calls s @
                [ParserSetFlags (if assetfs_is_primary_file L filepath then SSPARSER_DEFAULTS L
                                 else or (SSPARSER_DEFAULTS L) (SSPARSER_SKIP_DUPLICATES L)),
                 VmCompile (assetfs_fullpath L filepath),
                 ParserSetFlags (SSPARSER_DEFAULTS L)]
            \<and> vm s' = Some (parser_set_flags L (SSPARSER_DEFAULTS L)
                  (snd (vm_compile L (assetfs_fullpath L filepath)
                     (parser_set_flags L
                        (if assetfs_is_primary_file L filepath then SSPARSER_DEFAULTS L
                         else or (SSPARSER_DEFAULTS L) (SSPARSER_SKIP_DUPLICATES L)) v))))"
    by (auto simp: compile_script_calls_def compile_script_flags_def)
  ultimately show ?thesis by blast
qed

theorem scripts_compiled_with_flags_witness:
  "vm test_session = Some test_vm0
   \<and> (\<exists>r s'. compile_script (test_collaborators 504 True []) ''Override'' test_session = Inr (r, s')
          \<and> calls s' = [ParserSetFlags 1, VmCompile ''Override'', ParserSetFlags 0])
   \<and> (\<exists>s'. assetfs_foreach_file (test_collaborators 504 True []) [''Override'', ''Level'']
             test_session = Inr s'
          \<and> calls s' = [ParserSetFlags 1, VmCompile ''Override'', ParserSetFlags 0,
                        ParserSetFlags 0, VmCompile ''Level'', ParserSetFlags 0])"
proof -
  let ?L = "test_collaborators 504 True []"
  note t = scripts_compiled_with_flags [OF test_session_vm(1),
      of ?L "''Override''" "[''Override'', ''Level'']"]
  have s: "calls test_session = []"
    by (simp add: test_session_def)
  from t obtain r s1 where
    one: "compile_script ?L ''Override'' test_session = Inr (r, s1)" and
    calls1: "calls s1 = calls test_session @
                [ParserSetFlags (if assetfs_is_primary_file ?L ''Override'' then SSPARSER_DEFAULTS ?L
                                 else or (SSPARSER_DEFAULTS ?L) (SSPARSER_SKIP_DUPLICATES ?L)),
                 VmCompile (assetfs_fullpath ?L ''Override''),
                 ParserSetFlags (SSPARSER_DEFAULTS ?L)]"
    by blast
  from calls1 have calls1': "calls s1 = [ParserSetFlags 1, VmCompile ''Override'', ParserSetFlags 0]"
    by (simp add: s test_collaborators_def)
  from t obtain s2 where
    all: "assetfs_foreach_file ?L [''Override'', ''Level''] test_session = Inr s2" and
    calls2: "calls s2 = calls test_session @
               concat (map (compile_script_calls ?L) [''Override'', ''Level''])"
    by blast
  from calls2 have calls2': "calls s2 =
      [ParserSetFlags 1, VmCompile ''Override'', ParserSetFlags 0,
       ParserSetFlags 0, VmCompile ''Level'', ParserSetFlags 0]"
    by (simp add: s compile_script_calls_def test_collaborators_def)
  from one calls1' all calls2' test_session_vm(1) show ?thesis by blast
qed

text \<open>
  C10, as the code has it. The lookup resolves the plugin object only when the cached
  handle is zero, and stores the handle it resolved; when the cached handle is not zero
  it returns the object of that handle in the VM it is given and resolves nothing. The
  cache is a static of the function and \<open>scripting_reload\<close> leaves it as it is: it
  belongs to the process, not to a session.
\<close>

theorem surgeengine_object_cache_is_static:
  "(cached_ref s = 0 \<longrightarrow>
      scripting_util_surgeengine_object L v s =
        (case objectmanager_get (vm_objectmanager L v) (plugin_object L v ''SurgeEngine'') of
           Inl e \<Rightarrow>
             Inl (e, called (PluginObject ''SurgeEngine'')
                       (s\<lparr>cached_ref := plugin_object L v ''SurgeEngine''\<rparr>))
         | Inr obj \<Rightarrow>
             Inr (obj, called (PluginObject ''SurgeEngine'')
                         (s\<lparr>cached_ref := plugin_object L v ''SurgeEngine''\<rparr>))))
   \<and> (cached_ref s \<noteq> 0 \<longrightarrow>
      scripting_util_surgeengine_object L v s =
        (case objectmanager_get (vm_objectmanager L v) (cached_ref s) of
           Inl e \<Rightarrow> Inl (e, s) | Inr obj \<Rightarrow> Inr (obj, s)))
   \<and> (\<forall>s'. scripting_reload L s = Inr s' \<longrightarrow> cached_ref s' = cached_ref s)"
  by (auto simp: scripting_util_surgeengine_object_def called_def Let_def
      scripting_reload_keeps_cached_ref split: sum.splits)

theorem surgeengine_object_cache_is_static_witness:
  "cached_ref test_session = 0
   \<and> scripting_util_surgeengine_object (test_collaborators 504 True []) test_vm0 test_session =
       Inr (example_level, test_session_cached)
   \<and> cached_ref test_session_cached \<noteq> 0
   \<and> scripting_util_surgeengine_object (test_collaborators 504 True []) test_vm0
       test_session_cached = Inr (example_level, test_session_cached)
   \<and> (\<exists>s'. scripting_reload (test_collaborators 504 True []) test_session_cached = Inr s'
          \<and> cached_ref s' = 2)"
proof -
  let ?L = "test_collaborators 504 True []"
  have zero: "cached_ref test_session = 0"
    by (simp add: test_session_def)
  have set: "cached_ref test_session_cached \<noteq> 0" "cached_ref test_session_cached = 2"
    by (simp_all add: test_session_cached_def)
  have resolved: "called (PluginObject ''SurgeEngine'') (test_session\<lparr>cached_ref := 2\<rparr>) =
      test_session_cached"
    by (simp add: called_def test_session_cached_def test_session_def)
  have get: "objectmanager_get (vm_objectmanager ?L test_vm0) 2 = Inr example_level"
    "plugin_object ?L test_vm0 ''SurgeEngine'' = 2"
    by (simp_all add: test_collaborators_def objectmanager_get_def example_manager_def test_vm0_def)
  note t = surgeengine_object_cache_is_static [of test_session ?L test_vm0]
  note u = surgeengine_object_cache_is_static [of test_session_cached ?L test_vm0]
  from t zero have a: "scripting_util_surgeengine_object ?L test_vm0 test_session =
       Inr (example_level, test_session_cached)"
    unfolding get resolved by simp
  from u set(1) have b: "scripting_util_surgeengine_object ?L test_vm0 test_session_cached =
       Inr (example_level, test_session_cached)"
    unfolding set(2) get by simp
  have "vm test_session_cached \<noteq> None"
    by (simp add: test_session_cached_def test_session_def)
  from scripting_reload_returns [OF this, of ?L] obtain s' where
    r: "scripting_reload ?L test_session_cached = Inr s'" by blast
  with u have "cached_ref s' = 2" unfolding set(2) by blast
  with r zero set(1) a b show ?thesis by blast
qed

text \<open>
  C10 as stated fails: the session resolved the plugin object once, in its first lookup;
  after a reload the first lookup of the new session resolves nothing, and the count of
  resolutions is still one.
\<close>

theorem surgeengine_object_cache_counterexample:
  "map_sum snd snd
     (scripting_util_surgeengine_object (test_collaborators 504 True []) test_vm0 test_session)
     = Inr test_session_cached
   \<and> resolutions test_session_cached = 1
   \<and> map_option (map_sum (resolutions \<circ> snd) (resolutions \<circ> snd))
       (lookup_after_reload (test_collaborators 504 True []) test_session_cached) = Some (Inr 1)"
  by (simp add: scripting_util_surgeengine_object_def lookup_after_reload_def
      scripting_reload_def setup_surgeengine_def surgeengine_builtins_def register_def
      compile_scripts_def found_test_script_def vm_launch_def then_do_def
      logfile_message_def called_def resolutions_def
      test_collaborators_def test_session_cached_def test_session_def test_vm0_def
      objectmanager_get_def example_manager_def Let_def)

end
